theory Spec2Isabelle
  imports Main "HOL-Library.Sublist"
begin

section \<open>The configuration store of the model interpreter (src/config.ts)\<close>

text \<open>
  A shallow embedding of the class \<open>Config\<close>: the line parser \<open>parseBuffer\<close> with its
  helpers, and the getters. A JavaScript string is a sequence of UTF-16 code units; the
  embedding covers the code units below 256 (Latin-1), which the 8-bit type \<open>char\<close>
  holds one to one, so a JavaScript string is a \<open>string\<close> here. An exception is a value
  \<open>Inl (Error msg)\<close> of a sum type, \<open>msg\<close> being the message of the thrown \<open>Error\<close>.
  The names are those of the source. Where Isabelle has the name already, a suffix is
  added: \<open>split_str\<close>, \<open>includes_str\<close> and \<open>write_line\<close> are \<open>split\<close>, \<open>includes\<close> and
  \<open>write\<close>, and the local variable \<open>section\<close> of \<open>parseBuffer\<close> is the field
  \<open>cur_section\<close>.
\<close>

subsection \<open>The string primitives the class uses\<close>

text \<open>\<open>String.prototype.startsWith\<close>, \<open>endsWith\<close>.\<close>

definition startsWith :: "string \<Rightarrow> string \<Rightarrow> bool" where
  "startsWith s p = prefix p s"

definition endsWith :: "string \<Rightarrow> string \<Rightarrow> bool" where
  "endsWith s p = suffix p s"

text \<open>\<open>s.indexOf(p)\<close>: the position of the first occurrence, \<open>None\<close> for \<open>-1\<close>.\<close>

fun indexOf :: "string \<Rightarrow> string \<Rightarrow> nat option" where
  "indexOf [] p = (if p = [] then Some 0 else None)"
| "indexOf (c # cs) p = (if prefix p (c # cs) then Some 0 else map_option Suc (indexOf cs p))"

definition includes_str :: "string \<Rightarrow> string \<Rightarrow> bool" where
  "includes_str s p = (indexOf s p \<noteq> None)"

text \<open>\<open>s.substring(a, b)\<close> for \<open>a \<le> b\<close>, and \<open>s.slice(0, b)\<close>.\<close>

definition substring :: "string \<Rightarrow> nat \<Rightarrow> nat \<Rightarrow> string" where
  "substring s a b = take (b - a) (drop a s)"

text \<open>
  \<open>s.split(sep)\<close>: the pieces between the occurrences of \<open>sep\<close>, found from the left
  and not overlapping. With the empty separator JavaScript returns the code units.
\<close>

function split_str :: "string \<Rightarrow> string \<Rightarrow> string list" where
  "split_str s sep =
     (if sep = [] then map (\<lambda>c. [c]) s
      else case indexOf s sep of
             None \<Rightarrow> [s]
           | Some i \<Rightarrow> take i s # split_str (drop (i + length sep) s) sep)"
  by pat_completeness auto
termination
proof (relation "measure (\<lambda>(s, sep). length s)")
  show "wf (measure (\<lambda>(s, sep). length s))" by simp
next
  fix s sep :: string and i
  assume sep: "sep \<noteq> []" and found: "indexOf s sep = Some i"
  have bound: "indexOf t sep = Some j \<Longrightarrow> j + length sep \<le> length t" for t j
  proof (induction t arbitrary: j)
    case Nil
    then show ?case by (simp split: if_splits)
  next
    case (Cons c cs)
    show ?case
    proof (cases "prefix sep (c # cs)")
      case True
      then have "length sep \<le> length (c # cs)" by (rule prefix_length_le)
      with True Cons.prems show ?thesis by simp
    next
      case False
      with Cons.prems obtain k where "indexOf cs sep = Some k" "j = Suc k" by auto
      with Cons.IH show ?thesis by fastforce
    qed
  qed
  from sep have "0 < length sep" by simp
  with bound [OF found] have "length s - (i + length sep) < length s" by arith
  then show "((drop (i + length sep) s, sep), (s, sep)) \<in> measure (\<lambda>(s, sep). length s)"
    by simp
qed

declare split_str.simps [simp del]

text \<open>\<open>xs.join(sep)\<close>.\<close>

fun join :: "string list \<Rightarrow> string \<Rightarrow> string" where
  "join [] sep = []"
| "join [x] sep = x"
| "join (x # y # ys) sep = x @ sep @ join (y # ys) sep"

text \<open>
  \<open>s.trim()\<close> removes white space and line terminators at both ends; below 256 these
  are TAB, LF, VT, FF, CR, SP and NBSP.
\<close>

definition isWhiteSpace :: "char \<Rightarrow> bool" where
  "isWhiteSpace c = (c \<in> {CHR 0x09, CHR 0x0A, CHR 0x0B, CHR 0x0C, CHR 0x0D, CHR 0x20, CHR 0xA0})"

definition trimStart :: "string \<Rightarrow> string" where
  "trimStart s = dropWhile isWhiteSpace s"

definition trim :: "string \<Rightarrow> string" where
  "trim s = rev (dropWhile isWhiteSpace (rev (dropWhile isWhiteSpace s)))"

text \<open>
  \<open>s.toLowerCase()\<close>: below 256 the letters with a lower-case partner are A to Z and
  the accented capitals U+00C0 to U+00DE but the multiplication sign U+00D7.
\<close>

definition lowerChar :: "char \<Rightarrow> char" where
  "lowerChar c = (let n = (of_char c :: nat) in
     if (65 \<le> n \<and> n \<le> 90) \<or> (192 \<le> n \<and> n \<le> 222 \<and> n \<noteq> 215) then char_of (n + 32) else c)"

definition toLowerCase :: "string \<Rightarrow> string" where
  "toLowerCase s = map lowerChar s"

text \<open>The class \<open>\w\<close> of a regular expression without flags, and the decimal digits.\<close>

definition isDigit :: "char \<Rightarrow> bool" where
  "isDigit c = (let n = (of_char c :: nat) in 48 \<le> n \<and> n \<le> 57)"

definition isWordChar :: "char \<Rightarrow> bool" where
  "isWordChar c = (let n = (of_char c :: nat) in
     (65 \<le> n \<and> n \<le> 90) \<or> (97 \<le> n \<and> n \<le> 122) \<or> (48 \<le> n \<and> n \<le> 57) \<or> n = 95)"

text \<open>A number in a template literal: its decimal digits.\<close>

definition digitChar :: "nat \<Rightarrow> char" where
  "digitChar d = char_of (48 + d)"

function showNat :: "nat \<Rightarrow> string" where
  "showNat n = (if n < 10 then [digitChar n] else showNat (n div 10) @ [digitChar (n mod 10)])"
  by pat_completeness auto
termination
  by (relation "measure (\<lambda>n. n)") auto

declare showNat.simps [simp del]

subsection \<open>The class Config\<close>

text \<open>
  The field \<open>data\<close>, a \<open>Map<string, Map<string, string>>\<close>, is a map from section
  names to maps from keys to values. The field \<open>fs\<close> only serves to read a file and is
  left out.
\<close>

type_synonym config_data = "string \<rightharpoonup> (string \<rightharpoonup> string)"

record config =
  data :: config_data

datatype error = Error string

definition DEFAULT_SECTION :: string where
  "DEFAULT_SECTION = ''default''"

definition DEFAULT_COMMENT :: string where
  "DEFAULT_COMMENT = ''#''"

definition DEFAULT_COMMENT_SEM :: string where
  "DEFAULT_COMMENT_SEM = '';''"

definition DEFAULT_MULTI_LINE_SEPARATOR :: string where
  "DEFAULT_MULTI_LINE_SEPARATOR = [CHR 0x5C]"

text \<open>The constructor: \<open>this.data = new Map()\<close>.\<close>

definition newConfig :: config where
  "newConfig = \<lparr>data = Map.empty\<rparr>"

text \<open>
  \<open>addConfig(section, option, value)\<close>: the updated object and the boolean it returns
  (\<open>item.has(option)\<close> after \<open>item.set(option, value)\<close>).
\<close>

definition addConfig :: "config \<Rightarrow> string \<Rightarrow> string \<Rightarrow> string \<Rightarrow> config \<times> bool" where
  "addConfig c section option value =
     (let section = (if section = [] then DEFAULT_SECTION else section);
          hasKey = (data c section \<noteq> None);
          d = (if \<not> hasKey then (data c)(section \<mapsto> Map.empty) else data c)
      in case d section of
           Some item \<Rightarrow>
             (let item' = item(option \<mapsto> value)
              in (c\<lparr>data := d(section \<mapsto> item')\<rparr>, item' option \<noteq> None))
         | None \<Rightarrow> (c\<lparr>data := d\<rparr>, False))"

text \<open>
  \<open>matcherStr.match(/[rp]\.\w+/g) || []\<close>: the matches from the left, each the letter
  r or p, a dot and the longest run of word characters (at least one); the search goes
  on behind a match.
\<close>

function matchProps :: "string \<Rightarrow> string list" where
  "matchProps [] = []"
| "matchProps (c # cs) =
     (if (c = CHR ''r'' \<or> c = CHR ''p'') \<and> startsWith cs ''.'' \<and> takeWhile isWordChar (tl cs) \<noteq> []
      then (c # CHR ''.'' # takeWhile isWordChar (tl cs)) # matchProps (dropWhile isWordChar (tl cs))
      else matchProps cs)"
  by pat_completeness auto
termination
proof (relation "measure length")
  show "wf (measure length)" by simp
next
  fix c :: char and cs :: string
  have "length (dropWhile isWordChar (tl cs)) \<le> length (tl cs)"
    by (rule length_dropWhile_le)
  then show "(dropWhile isWordChar (tl cs), c # cs) \<in> measure length" by simp
next
  fix c :: char and cs :: string
  show "(cs, c # cs) \<in> measure length" by simp
qed

text \<open>\<open>(matcherStr.match(/\(/g) || []).length\<close>: how often a character occurs.\<close>

definition countChar :: "char \<Rightarrow> string \<Rightarrow> nat" where
  "countChar c s = length (filter (\<lambda>x. x = c) s)"

definition validProps :: "string list" where
  "validProps = [''r.sub'', ''r.obj'', ''r.act'', ''p.sub'', ''p.obj'', ''p.act'', ''p.eft'']"

text \<open>
  \<open>validateMatcher\<close> in two parts: \<open>matcherErrors\<close> is the array \<open>errors\<close> as the four
  checks leave it, \<open>validateMatcher\<close> the final throw.
\<close>

definition matcherErrors :: "string \<Rightarrow> string list" where
  "matcherErrors matcherStr =
     (let usedProps = matchProps matcherStr;
          invalidProps = filter (\<lambda>prop. prop \<notin> set validProps) usedProps;
          errors = [];
          errors = (if length invalidProps > 0
                    then errors @ [''Invalid properties: '' @ join invalidProps '', '']
                    else errors);
          errors = (if includes_str matcherStr ''..''
                    then errors @ [''Found extra dots''] else errors);
          errors = (if endsWith (trim matcherStr) '',''
                    then errors @ [''Unnecessary comma''] else errors);
          openBrackets = countChar CHR ''('' matcherStr;
          closeBrackets = countChar CHR '')'' matcherStr;
          errors = (if openBrackets \<noteq> closeBrackets
                    then errors @ [''Mismatched parentheses''] else errors)
      in errors)"

definition validateMatcher :: "string \<Rightarrow> nat \<Rightarrow> error + unit" where
  "validateMatcher matcherStr lineNumber =
     (let errors = matcherErrors matcherStr
      in if length errors > 0 then Inl (Error (join errors '', '')) else Inr ())"

text \<open>\<open>write(section, lineNum, line)\<close>: one logical line into the store.\<close>

definition write_line :: "config \<Rightarrow> string \<Rightarrow> nat \<Rightarrow> string \<Rightarrow> error + config" where
  "write_line c section lineNum line =
     (case indexOf line ''='' of
        None \<Rightarrow> Inl (Error (''parse the content error : line '' @ showNat lineNum))
      | Some equalIndex \<Rightarrow>
          (let key = trim (substring line 0 equalIndex);
               value = trim (drop (equalIndex + 1) line)
           in case (if section = ''matchers'' then validateMatcher value lineNum else Inr ()) of
                Inl e \<Rightarrow> Inl e
              | Inr _ \<Rightarrow> Inr (fst (addConfig c section key value))))"

text \<open>
  The state of \<open>parseBuffer\<close>: the object and the three local variables that the
  callback of \<open>lines.forEach\<close> updates.
\<close>

record parse_state =
  config :: config
  cur_section :: string
  currentLine :: string
  seenSections :: "string set"

text \<open>
  The callback of \<open>lines.forEach((n, index) => ...)\<close>, with \<open>linesCount\<close> the number of
  lines. The line numbers it cites are \<open>index + 1\<close>.
\<close>

definition stripComments :: "string \<Rightarrow> string" where
  "stripComments n =
     (let n = (case indexOf n DEFAULT_COMMENT of Some commentPos \<Rightarrow> take commentPos n | None \<Rightarrow> n);
          n = (case indexOf n DEFAULT_COMMENT_SEM of Some commentPos \<Rightarrow> take commentPos n | None \<Rightarrow> n)
      in n)"

definition parseLine :: "nat \<Rightarrow> parse_state \<Rightarrow> string \<Rightarrow> nat \<Rightarrow> error + parse_state" where
  "parseLine linesCount st n index =
     (let line = trim (stripComments n)
      in if line = [] then Inr st
         else
           let lineNumber = index + 1
           in if startsWith line ''['' \<and> endsWith line '']''
              then
                (case (if length (currentLine st) \<noteq> 0
                       then write_line (config st) (cur_section st) (lineNumber - 1) (currentLine st)
                       else Inr (config st)) of
                   Inl e \<Rightarrow> Inl e
                 | Inr c \<Rightarrow>
                     (let section = substring line 1 (length line - 1)
                      in if section \<in> seenSections st
                         then Inl (Error (''Duplicated section: '' @ section @ '' at line '' @ showNat lineNumber))
                         else Inr \<lparr>config = c, cur_section = section, currentLine = [],
                                   seenSections = insert section (seenSections st)\<rparr>))
              else
                (let (currentLine', shouldWrite) =
                       (if endsWith line DEFAULT_MULTI_LINE_SEPARATOR
                        then (currentLine st @ trim (substring line 0 (length line - 1)), False)
                        else (currentLine st @ line, True))
                 in if shouldWrite \<or> lineNumber = linesCount
                    then (case write_line (config st) (cur_section st) lineNumber currentLine' of
                            Inl e \<Rightarrow> Inl e
                          | Inr c \<Rightarrow> Inr (st\<lparr>config := c, currentLine := []\<rparr>))
                    else Inr (st\<lparr>currentLine := currentLine'\<rparr>)))"

text \<open>\<open>lines.forEach\<close> from the index \<open>index\<close> on; an exception ends the loop.\<close>

fun forEachLine :: "nat \<Rightarrow> parse_state \<Rightarrow> nat \<Rightarrow> string list \<Rightarrow> error + parse_state" where
  "forEachLine linesCount st index [] = Inr st"
| "forEachLine linesCount st index (n # ns) =
     (case parseLine linesCount st n index of
        Inl e \<Rightarrow> Inl e
      | Inr st' \<Rightarrow> forEachLine linesCount st' (Suc index) ns)"

text \<open>\<open>buf.toString().split('\n').filter((v) => v)\<close>: the lines that are not empty.\<close>

definition linesOf :: "string \<Rightarrow> string list" where
  "linesOf text = filter (\<lambda>v. v \<noteq> []) (split_str text [CHR 0x0A])"

definition initialState :: "config \<Rightarrow> parse_state" where
  "initialState c = \<lparr>config = c, cur_section = [], currentLine = [], seenSections = {}\<rparr>"

definition parseBuffer :: "config \<Rightarrow> string \<Rightarrow> error + config" where
  "parseBuffer c text =
     (let lines = linesOf text;
          linesCount = length lines
      in case forEachLine linesCount (initialState c) 0 lines of
           Inl e \<Rightarrow> Inl e
         | Inr st \<Rightarrow> Inr (config st))"

definition newConfigFromText :: "string \<Rightarrow> error + config" where
  "newConfigFromText text = parseBuffer newConfig text"

text \<open>\<open>get(key)\<close>; \<open>keys[0]\<close> exists, \<open>split\<close> never returning the empty array.\<close>

definition get :: "config \<Rightarrow> string \<Rightarrow> string" where
  "get c key =
     (let keys = split_str (toLowerCase key) ''::'';
          (section, option) = (if length keys \<ge> 2 then (keys ! 0, keys ! 1)
                               else (DEFAULT_SECTION, keys ! 0));
          item = data c section;
          itemChild = (case item of None \<Rightarrow> None | Some m \<Rightarrow> m option)
      in case itemChild of
           None \<Rightarrow> []
         | Some v \<Rightarrow> (if v \<noteq> [] then v else []))"

text \<open>\<open>set(key, value)\<close>; it throws on the empty key.\<close>

definition set_key :: "config \<Rightarrow> string \<Rightarrow> string \<Rightarrow> error + config" where
  "set_key c key value =
     (if key = [] then Inl (Error ''key is empty'')
      else
        let keys = split_str (toLowerCase key) ''::'';
            (section, option) = (if length keys \<ge> 2 then (keys ! 0, keys ! 1) else ([], keys ! 0))
        in Inr (fst (addConfig c section option value)))"

text \<open>
  The numbers of \<open>Number.parseInt(s, 10)\<close> and \<open>Number.parseFloat(s)\<close>: \<open>NaN\<close>, or the
  Number value of a numeral. The numeral is kept as its text; its rounding to a double
  is not part of the embedding.
\<close>

datatype number = NaN | NumberOf string

text \<open>
  \<open>Number.parseInt(s, 10)\<close> (ECMAScript 2015, 18.2.5): leading white space is dropped,
  then a sign; the digits that follow are the numeral, and without one the result is NaN.
\<close>

definition parseInt10 :: "string \<Rightarrow> number" where
  "parseInt10 s =
     (let S = trimStart s;
          negative = startsWith S ''-'';
          S = (if startsWith S ''+'' \<or> startsWith S ''-'' then tl S else S);
          Z = takeWhile isDigit S
      in if Z = [] then NaN else NumberOf ((if negative then ''-'' else []) @ Z))"

text \<open>
  \<open>Number.parseFloat(s)\<close> (18.2.4): the longest prefix of the trimmed string that is a
  \<open>StrDecimalLiteral\<close>: a sign, then \<open>Infinity\<close> or digits with a fraction and an
  exponent; NaN when there is no such prefix.
\<close>

definition exponentPart :: "string \<Rightarrow> string" where
  "exponentPart r =
     (if startsWith r ''e'' \<or> startsWith r ''E''
      then (let r1 = tl r;
                sgn = (if startsWith r1 ''+'' \<or> startsWith r1 ''-'' then take 1 r1 else []);
                ds = takeWhile isDigit (drop (length sgn) r1)
            in if ds = [] then [] else hd r # sgn @ ds)
      else [])"

definition strUnsignedDecimalPrefix :: "string \<Rightarrow> string option" where
  "strUnsignedDecimalPrefix u =
     (if startsWith u ''Infinity'' then Some ''Infinity''
      else
        let ip = takeWhile isDigit u;
            r1 = dropWhile isDigit u;
            fd = (if startsWith r1 ''.'' then takeWhile isDigit (tl r1) else []);
            frac = (if startsWith r1 ''.'' \<and> (ip \<noteq> [] \<or> fd \<noteq> []) then CHR ''.'' # fd else []);
            r2 = drop (length frac) r1
        in if ip = [] \<and> frac = [] then None
           else Some (ip @ frac @ exponentPart r2))"

definition strDecimalPrefix :: "string \<Rightarrow> string option" where
  "strDecimalPrefix t =
     (let sgn = (if startsWith t ''+'' \<or> startsWith t ''-'' then take 1 t else [])
      in case strUnsignedDecimalPrefix (drop (length sgn) t) of
           None \<Rightarrow> None
         | Some lit \<Rightarrow> Some (sgn @ lit))"

definition parseFloat :: "string \<Rightarrow> number" where
  "parseFloat s = (case strDecimalPrefix (trimStart s) of None \<Rightarrow> NaN | Some lit \<Rightarrow> NumberOf lit)"

text \<open>The getters.\<close>

definition getBool :: "config \<Rightarrow> string \<Rightarrow> bool" where
  "getBool c key = (get c key \<noteq> [])"

definition getInt :: "config \<Rightarrow> string \<Rightarrow> number" where
  "getInt c key = parseInt10 (get c key)"

definition getFloat :: "config \<Rightarrow> string \<Rightarrow> number" where
  "getFloat c key = parseFloat (get c key)"

definition getString :: "config \<Rightarrow> string \<Rightarrow> string" where
  "getString c key = get c key"

definition getStrings :: "config \<Rightarrow> string \<Rightarrow> string list" where
  "getStrings c key = (let v = get c key in split_str v '','')"

subsection \<open>Notions the properties are stated with\<close>

text \<open>
  The section and the key that \<open>get\<close> and \<open>set\<close> address with a qualified key, and the
  string the store holds there.
\<close>

definition addressed :: "string \<Rightarrow> string \<times> string" where
  "addressed key =
     (let keys = split_str (toLowerCase key) ''::''
      in if length keys \<ge> 2 then (keys ! 0, keys ! 1) else (DEFAULT_SECTION, keys ! 0))"

definition stored :: "config \<Rightarrow> string \<Rightarrow> string \<Rightarrow> string option" where
  "stored c section option = (case data c section of None \<Rightarrow> None | Some item \<Rightarrow> item option)"

text \<open>A logical line split at its first \<open>=\<close>: the trimmed key and the trimmed value.\<close>

definition splitEntry :: "string \<Rightarrow> (string \<times> string) option" where
  "splitEntry line =
     (case indexOf line ''='' of
        None \<Rightarrow> None
      | Some i \<Rightarrow> Some (trim (take i line), trim (drop (i + 1) line)))"

text \<open>The name of the section a physical line opens, when the callback reads it as a header.\<close>

definition headerName :: "string \<Rightarrow> string option" where
  "headerName n =
     (let line = trim (stripComments n)
      in if startsWith line ''['' \<and> endsWith line '']''
         then Some (substring line 1 (length line - 1)) else None)"

text \<open>
  The call \<open>this.write(section, _, line)\<close> that the callback makes on a physical line, if
  it makes one: the section and the logical line it hands over.
\<close>

definition flushOf :: "nat \<Rightarrow> parse_state \<Rightarrow> string \<Rightarrow> nat \<Rightarrow> (string \<times> string) option" where
  "flushOf linesCount st n index =
     (let line = trim (stripComments n)
      in if line = [] then None
         else if startsWith line ''['' \<and> endsWith line '']''
         then (if currentLine st \<noteq> [] then Some (cur_section st, currentLine st) else None)
         else if endsWith line DEFAULT_MULTI_LINE_SEPARATOR
         then (if index + 1 = linesCount
               then Some (cur_section st, currentLine st @ trim (substring line 0 (length line - 1)))
               else None)
         else Some (cur_section st, currentLine st @ line))"

text \<open>
  The insertion that this call of \<open>write\<close> makes, if it makes one: none when the logical
  line has no \<open>=\<close> or its value is rejected as a matcher, and otherwise the section
  (\<open>default\<close> for the unnamed one), the key and the value.
\<close>

definition entryOf :: "(string \<times> string) option \<Rightarrow> (string \<times> string \<times> string) list" where
  "entryOf f =
     (case f of
        None \<Rightarrow> []
      | Some (section, line) \<Rightarrow>
          (case splitEntry line of
             None \<Rightarrow> []
           | Some (key, value) \<Rightarrow>
               if section = ''matchers'' \<and> matcherErrors value \<noteq> [] then []
               else [(if section = [] then DEFAULT_SECTION else section, key, value)]))"

text \<open>
  The insertions of a run of \<open>forEach\<close>, in their order, up to the end of the lines or
  to the line on which an error is thrown (the insertion of that line included, when
  the error comes after it).
\<close>

fun writtenFrom :: "nat \<Rightarrow> parse_state \<Rightarrow> nat \<Rightarrow> string list \<Rightarrow> (string \<times> string \<times> string) list" where
  "writtenFrom linesCount st index [] = []"
| "writtenFrom linesCount st index (n # ns) =
     entryOf (flushOf linesCount st n index)
     @ (case parseLine linesCount st n index of
          Inl e \<Rightarrow> []
        | Inr st' \<Rightarrow> writtenFrom linesCount st' (Suc index) ns)"

definition written :: "string \<Rightarrow> (string \<times> string \<times> string) list" where
  "written text = writtenFrom (length (linesOf text)) (initialState newConfig) 0 (linesOf text)"

text \<open>Parsing a text and then querying a key: the error of the parse, or the result of \<open>get\<close>.\<close>

definition parseThenGet :: "string \<Rightarrow> string \<Rightarrow> error + string" where
  "parseThenGet text key =
     (case newConfigFromText text of Inl e \<Rightarrow> Inl e | Inr c \<Rightarrow> Inr (get c key))"

text \<open>Setting a key in a store and then querying a key.\<close>

definition setThenGet :: "config \<Rightarrow> string \<Rightarrow> string \<Rightarrow> string \<Rightarrow> error + string" where
  "setThenGet c key value key' =
     (case set_key c key value of Inl e \<Rightarrow> Inl e | Inr c' \<Rightarrow> Inr (get c' key'))"

text \<open>The value of the last insertion for a section and a key.\<close>

fun lastWritten :: "(string \<times> string \<times> string) list \<Rightarrow> string \<Rightarrow> string \<Rightarrow> string option" where
  "lastWritten [] s k = None"
| "lastWritten ((s', k', v) # ws) s k =
     (case lastWritten ws s k of
        Some v' \<Rightarrow> Some v'
      | None \<Rightarrow> (if s' = s \<and> k' = k then Some v else None))"

text \<open>
  Decimal numerals as ECMAScript defines them (\<open>StrDecimalLiteral\<close>, 7.1.3.1):
  \<^verbatim>\<open>DecimalDigits\<close> is a run of at least one digit, \<^verbatim>\<open>ExponentPart\<close> is e or E, a sign
  or none, and digits; an unsigned literal is \<open>Infinity\<close>, or digits, a dot, digits or
  none and an exponent or none, or a dot, digits and an exponent or none, or digits and
  an exponent or none; a literal is an unsigned literal with a sign or none.
\<close>

definition decimalDigits :: "string \<Rightarrow> bool" where
  "decimalDigits ds = (ds \<noteq> [] \<and> (\<forall>c \<in> set ds. isDigit c))"

definition isSign :: "string \<Rightarrow> bool" where
  "isSign sg = (sg = [] \<or> sg = ''+'' \<or> sg = ''-'')"

definition isExponentPart :: "string \<Rightarrow> bool" where
  "isExponentPart ex =
     (\<exists>ind sg ds. ex = ind # sg @ ds \<and> (ind = CHR ''e'' \<or> ind = CHR ''E'')
        \<and> isSign sg \<and> decimalDigits ds)"

definition isStrUnsignedDecimalLiteral :: "string \<Rightarrow> bool" where
  "isStrUnsignedDecimalLiteral u =
     (u = ''Infinity''
      \<or> (\<exists>ip fp ex. u = ip @ ''.'' @ fp @ ex \<and> decimalDigits ip
            \<and> (fp = [] \<or> decimalDigits fp) \<and> (ex = [] \<or> isExponentPart ex))
      \<or> (\<exists>fp ex. u = ''.'' @ fp @ ex \<and> decimalDigits fp \<and> (ex = [] \<or> isExponentPart ex))
      \<or> (\<exists>ip ex. u = ip @ ex \<and> decimalDigits ip \<and> (ex = [] \<or> isExponentPart ex)))"

definition isStrDecimalLiteral :: "string \<Rightarrow> bool" where
  "isStrDecimalLiteral lit =
     (isStrUnsignedDecimalLiteral lit
      \<or> (\<exists>u. (lit = CHR ''+'' # u \<or> lit = CHR ''-'' # u) \<and> isStrUnsignedDecimalLiteral u))"

text \<open>
  What \<open>parseInt\<close> with the radix 10 reads in a text (18.2.5): white space, a sign or
  none, and the whole run of digits that follows; its numeral is that run, with the
  minus sign if there is one. What \<open>parseFloat\<close> reads (18.2.4): white space and the
  longest decimal literal that follows.
\<close>

definition integerNumeralOf :: "string \<Rightarrow> string \<Rightarrow> bool" where
  "integerNumeralOf s lit =
     (\<exists>ws sg ds rest. s = ws @ sg @ ds @ rest \<and> (\<forall>c \<in> set ws. isWhiteSpace c)
        \<and> isSign sg \<and> decimalDigits ds \<and> (rest = [] \<or> \<not> isDigit (hd rest))
        \<and> lit = (if sg = ''-'' then ''-'' else []) @ ds)"

definition decimalLiteralOf :: "string \<Rightarrow> string \<Rightarrow> bool" where
  "decimalLiteralOf s lit =
     (\<exists>ws rest. s = ws @ lit @ rest \<and> (\<forall>c \<in> set ws. isWhiteSpace c)
        \<and> isStrDecimalLiteral lit
        \<and> (\<forall>lit'. isStrDecimalLiteral lit' \<and> prefix lit' (lit @ rest) \<longrightarrow> length lit' \<le> length lit))"

section \<open>Properties\<close>

subsection \<open>Splitting and lower case\<close>

lemma split_str_not_found: "sep \<noteq> [] \<Longrightarrow> indexOf s sep = None \<Longrightarrow> split_str s sep = [s]"
  by (subst split_str.simps) simp

lemma split_str_found:
  "sep \<noteq> [] \<Longrightarrow> indexOf s sep = Some i \<Longrightarrow>
   split_str s sep = take i s # split_str (drop (i + length sep) s) sep"
  by (subst split_str.simps) simp

lemma split_str_not_Nil: "sep \<noteq> [] \<Longrightarrow> split_str s sep \<noteq> []"
  by (cases "indexOf s sep") (simp_all add: split_str_not_found split_str_found)

lemma of_char_lowerChar:
  "(of_char (lowerChar x) :: nat) =
     (if (65 \<le> (of_char x :: nat) \<and> (of_char x :: nat) \<le> 90)
         \<or> (192 \<le> (of_char x :: nat) \<and> (of_char x :: nat) \<le> 222 \<and> (of_char x :: nat) \<noteq> 215)
      then of_char x + 32 else of_char x)"
  by (auto simp add: lowerChar_def Let_def)





subsection \<open>Lookup\<close>

lemma get_stored:
  "get c key = (case stored c (fst (addressed key)) (snd (addressed key)) of None \<Rightarrow> [] | Some v \<Rightarrow> v)"
  by (simp add: get_def addressed_def stored_def Let_def split: option.splits)

lemma get_newConfig: "get newConfig key = []"
  by (simp add: get_stored stored_def newConfig_def)



text \<open>
  C10. \<open>getStrings\<close> never returns the empty array, and where \<open>get\<close> returns the
  empty string (an absent section or key, or a stored empty string) it returns the array
  whose one element is the empty string.
\<close>

theorem getStrings_not_empty:
  "getStrings c key \<noteq> []
   \<and> (get c key = [] \<longrightarrow> getStrings c key = [[]])
   \<and> (stored c (fst (addressed key)) (snd (addressed key)) = None \<longrightarrow> getStrings c key = [[]])"
  by (simp add: getStrings_def split_str_not_Nil split_str_not_found get_stored)

theorem getStrings_not_empty_witness:
  "getStrings newConfig ''p::x'' \<noteq> [] \<and> get newConfig ''p::x'' = []
   \<and> stored newConfig (fst (addressed ''p::x'')) (snd (addressed ''p::x'')) = None
   \<and> getStrings newConfig ''p::x'' = [[]]"
proof -
  have s: "stored newConfig (fst (addressed ''p::x'')) (snd (addressed ''p::x'')) = None"
    by (simp add: stored_def newConfig_def)
  from s get_newConfig [of "''p::x''"] getStrings_not_empty [of newConfig "''p::x''"]
  show ?thesis by simp
qed

subsection \<open>The getters: characters and runs of digits\<close>

lemma digit_not_space: "isDigit c \<Longrightarrow> \<not> isWhiteSpace c"
  by (auto simp add: isDigit_def isWhiteSpace_def Let_def)

lemma digit_not_symbol:
  "isDigit c \<Longrightarrow> c \<noteq> CHR ''+'' \<and> c \<noteq> CHR ''-'' \<and> c \<noteq> CHR ''.'' \<and> c \<noteq> CHR ''e''
     \<and> c \<noteq> CHR ''E'' \<and> c \<noteq> CHR ''I''"
  by (auto simp add: isDigit_def Let_def)

lemma symbol_not_digit:
  "\<not> isDigit CHR ''+''" "\<not> isDigit CHR ''-''" "\<not> isDigit CHR ''.''" "\<not> isDigit CHR ''e''"
  "\<not> isDigit CHR ''E''" "\<not> isDigit CHR ''I''"
  by (simp_all add: isDigit_def)

lemma symbol_not_space:
  "\<not> isWhiteSpace CHR ''+''" "\<not> isWhiteSpace CHR ''-''" "\<not> isWhiteSpace CHR ''.''"
  "\<not> isWhiteSpace CHR ''I''"
  by (simp_all add: isWhiteSpace_def)

lemma takeWhile_digits:
  assumes "\<forall>c \<in> set d. isDigit c" and "r = [] \<or> \<not> isDigit (hd r)"
  shows "takeWhile isDigit (d @ r) = d" and "dropWhile isDigit (d @ r) = r"
  using assms by (cases r; simp add: takeWhile_append2 dropWhile_append2)+

lemma takeWhile_digits_length:
  assumes "\<forall>c \<in> set d. isDigit c"
  shows "length d \<le> length (takeWhile isDigit (d @ r))"
  using assms by (simp add: takeWhile_append2)

lemma trimStart_append:
  assumes "\<forall>c \<in> set ws. isWhiteSpace c" and "t = [] \<or> \<not> isWhiteSpace (hd t)"
  shows "trimStart (ws @ t) = t"
  using assms by (cases t) (simp_all add: trimStart_def dropWhile_append2)

lemma trimStart_split: "s = takeWhile isWhiteSpace s @ trimStart s"
  by (simp add: trimStart_def)

lemma trimStart_space: "\<forall>c \<in> set (takeWhile isWhiteSpace s). isWhiteSpace c"
  by (auto dest: set_takeWhileD)

lemma trimStart_hd: "trimStart s = [] \<or> \<not> isWhiteSpace (hd (trimStart s))"
  using hd_dropWhile [of isWhiteSpace s] by (auto simp add: trimStart_def)

lemma dropWhile_digit_hd: "dropWhile isDigit s = [] \<or> \<not> isDigit (hd (dropWhile isDigit s))"
  using hd_dropWhile [of isDigit s] by auto

subsection \<open>The getters: parseInt reads the integer numeral\<close>

lemma sign_split:
  "(if startsWith S ''+'' \<or> startsWith S ''-'' then take 1 S else [])
     @ drop (length (if startsWith S ''+'' \<or> startsWith S ''-'' then take 1 S else [])) S = S"
  by (cases S) simp_all

lemma parseInt10_numeral:
  assumes "integerNumeralOf s lit"
  shows "parseInt10 s = NumberOf lit"
proof -
  from assms obtain ws sg ds rest where
    s: "s = ws @ sg @ ds @ rest" and ws: "\<forall>c \<in> set ws. isWhiteSpace c"
    and sg: "isSign sg" and ds: "decimalDigits ds"
    and rest: "rest = [] \<or> \<not> isDigit (hd rest)"
    and lit: "lit = (if sg = ''-'' then ''-'' else []) @ ds"
    unfolding integerNumeralOf_def by blast
  from ds obtain d ds' where dd: "ds = d # ds'" and d: "isDigit d" and all: "\<forall>c \<in> set ds. isDigit c"
    by (cases ds) (auto simp add: decimalDigits_def)
  have "\<not> isWhiteSpace (hd (sg @ ds @ rest))"
    using sg dd d digit_not_space symbol_not_space by (auto simp add: isSign_def)
  then have t: "trimStart s = sg @ ds @ rest"
    using trimStart_append [OF ws, of "sg @ ds @ rest"] dd by (simp add: s)
  have tw: "takeWhile isDigit (ds @ rest) = ds"
    using takeWhile_digits(1) [OF all rest] .
  show ?thesis
    using sg dd d digit_not_symbol [OF d] tw
    by (auto simp add: parseInt10_def t lit isSign_def startsWith_def Let_def)
qed

lemma parseInt10_unfold:
  "parseInt10 s =
     (if takeWhile isDigit (drop (length (if startsWith (trimStart s) ''+'' \<or> startsWith (trimStart s) ''-''
                                          then take 1 (trimStart s) else [])) (trimStart s)) = []
      then NaN
      else NumberOf ((if startsWith (trimStart s) ''-'' then ''-'' else [])
             @ takeWhile isDigit (drop (length (if startsWith (trimStart s) ''+'' \<or> startsWith (trimStart s) ''-''
                                          then take 1 (trimStart s) else [])) (trimStart s))))"
  by (cases "trimStart s") (simp_all add: parseInt10_def startsWith_def Let_def)

lemma parseInt10_sound:
  assumes "parseInt10 s = NumberOf lit"
  shows "integerNumeralOf s lit"
proof -
  define S where "S = trimStart s"
  define sg where "sg = (if startsWith S ''+'' \<or> startsWith S ''-'' then take 1 S else [])"
  define T where "T = drop (length sg) S"
  define ds where "ds = takeWhile isDigit T"
  define rest where "rest = dropWhile isDigit T"
  define ws where "ws = takeWhile isWhiteSpace s"
  have p: "parseInt10 s = (if ds = [] then NaN else NumberOf ((if startsWith S ''-'' then ''-'' else []) @ ds))"
    unfolding ds_def T_def sg_def S_def by (rule parseInt10_unfold)
  from assms p have ne: "ds \<noteq> []" and lit: "lit = (if startsWith S ''-'' then ''-'' else []) @ ds"
    by (auto split: if_splits)
  have sg: "isSign sg"
    unfolding sg_def by (cases S) (auto simp add: isSign_def startsWith_def)
  have neg: "startsWith S ''-'' \<longleftrightarrow> sg = ''-''"
    unfolding sg_def by (cases S) (auto simp add: startsWith_def)
  have "sg @ T = S"
    unfolding T_def sg_def by (rule sign_split)
  moreover have "ds @ rest = T"
    unfolding ds_def rest_def by simp
  moreover have "ws @ S = s"
    unfolding ws_def S_def by (rule trimStart_split [symmetric])
  ultimately have s: "s = ws @ sg @ ds @ rest" by simp
  have d: "decimalDigits ds"
    using ne unfolding ds_def by (auto simp add: decimalDigits_def dest: set_takeWhileD)
  have w: "\<forall>c \<in> set ws. isWhiteSpace c"
    unfolding ws_def by (rule trimStart_space)
  have r: "rest = [] \<or> \<not> isDigit (hd rest)"
    unfolding rest_def by (rule dropWhile_digit_hd)
  from lit neg have l: "lit = (if sg = ''-'' then ''-'' else []) @ ds" by simp
  from s w sg d r l show ?thesis
    unfolding integerNumeralOf_def by blast
qed


subsection \<open>The getters: the exponent part\<close>

lemma exponentPart_Cons:
  "exponentPart (ind # r1) =
     (if ind = CHR ''e'' \<or> ind = CHR ''E''
      then (if takeWhile isDigit (drop (length (if startsWith r1 ''+'' \<or> startsWith r1 ''-'' then take 1 r1 else [])) r1) = []
            then []
            else ind # (if startsWith r1 ''+'' \<or> startsWith r1 ''-'' then take 1 r1 else [])
                   @ takeWhile isDigit (drop (length (if startsWith r1 ''+'' \<or> startsWith r1 ''-'' then take 1 r1 else [])) r1))
      else [])"
  by (simp add: exponentPart_def startsWith_def Let_def)

lemma exponentPart_Nil: "exponentPart [] = []"
  by (simp add: exponentPart_def startsWith_def)

lemma exponentPart_sound:
  "prefix (exponentPart r) r \<and> (exponentPart r = [] \<or> isExponentPart (exponentPart r))"
proof (cases r)
  case Nil
  then show ?thesis by (simp add: exponentPart_Nil)
next
  case (Cons ind r1)
  define sg where "sg = (if startsWith r1 ''+'' \<or> startsWith r1 ''-'' then take 1 r1 else [])"
  define T where "T = drop (length sg) r1"
  define ds where "ds = takeWhile isDigit T"
  have e: "exponentPart r =
      (if ind = CHR ''e'' \<or> ind = CHR ''E'' then (if ds = [] then [] else ind # sg @ ds) else [])"
    unfolding Cons ds_def T_def sg_def by (rule exponentPart_Cons)
  have sg: "isSign sg"
    unfolding sg_def by (cases r1) (auto simp add: isSign_def startsWith_def)
  have "sg @ T = r1"
    unfolding T_def sg_def by (rule sign_split)
  moreover have "ds @ dropWhile isDigit T = T"
    unfolding ds_def by simp
  ultimately have r: "r = (ind # sg @ ds) @ dropWhile isDigit T"
    by (simp add: Cons)
  have p: "prefix (ind # sg @ ds) r"
    by (subst r) (rule prefixI, rule refl)
  have d: "ds \<noteq> [] \<longrightarrow> decimalDigits ds"
    unfolding ds_def by (auto simp add: decimalDigits_def dest: set_takeWhileD)
  show ?thesis
  proof (cases "(ind = CHR ''e'' \<or> ind = CHR ''E'') \<and> ds \<noteq> []")
    case True
    with e have "exponentPart r = ind # sg @ ds" by simp
    moreover from True sg d have "isExponentPart (ind # sg @ ds)"
      unfolding isExponentPart_def by blast
    ultimately show ?thesis using p by simp
  next
    case False
    with e have "exponentPart r = []" by auto
    then show ?thesis by simp
  qed
qed

lemma exponentPart_complete:
  assumes "isExponentPart ex"
  shows "length ex \<le> length (exponentPart (ex @ rest))"
proof -
  from assms obtain ind sg ds where ex: "ex = ind # sg @ ds"
    and ind: "ind = CHR ''e'' \<or> ind = CHR ''E''" and sg: "isSign sg" and ds: "decimalDigits ds"
    unfolding isExponentPart_def by blast
  from ds obtain d ds' where dd: "ds = d # ds'" and d: "isDigit d" and all: "\<forall>c \<in> set ds. isDigit c"
    by (cases ds) (auto simp add: decimalDigits_def)
  define r1 where "r1 = sg @ ds @ rest"
  have sg': "(if startsWith r1 ''+'' \<or> startsWith r1 ''-'' then take 1 r1 else []) = sg"
    using sg digit_not_symbol [OF d] unfolding r1_def dd
    by (auto simp add: isSign_def startsWith_def)
  have dr: "drop (length sg) r1 = ds @ rest"
    unfolding r1_def by simp
  have len: "length ds \<le> length (takeWhile isDigit (ds @ rest))"
    using all by (rule takeWhile_digits_length)
  have ne: "takeWhile isDigit (ds @ rest) \<noteq> []"
    using dd d by simp
  have "exponentPart (ex @ rest) = ind # sg @ takeWhile isDigit (ds @ rest)"
    using ind ne by (simp only: ex append_Cons append_assoc r1_def [symmetric] exponentPart_Cons sg' dr if_True if_False simp_thms)
  with len show ?thesis by (simp add: ex)
qed


subsection \<open>The getters: the unsigned literal\<close>

lemma fraction_split:
  assumes "startsWith r1 ''.''"
  shows "r1 = (CHR ''.'' # takeWhile isDigit (tl r1)) @ dropWhile isDigit (tl r1)"
  using assms by (cases r1) (simp_all add: startsWith_def)

lemma unsigned_not_Infinity:
  assumes "u = [] \<or> isDigit (hd u) \<or> hd u = CHR ''.''"
  shows "\<not> startsWith u ''Infinity''"
  using assms symbol_not_digit by (cases u) (auto simp add: startsWith_def)

lemma unsigned_compute:
  assumes ip: "\<forall>c \<in> set ip. isDigit c" and r1: "r1 = [] \<or> \<not> isDigit (hd r1)"
    and ne: "ip \<noteq> [] \<or> (startsWith r1 ''.'' \<and> takeWhile isDigit (tl r1) \<noteq> [])"
  shows "strUnsignedDecimalPrefix (ip @ r1) =
     Some (ip @ (if startsWith r1 ''.''
                 then (CHR ''.'' # takeWhile isDigit (tl r1)) @ exponentPart (dropWhile isDigit (tl r1))
                 else exponentPart r1))"
proof -
  have tw: "takeWhile isDigit (ip @ r1) = ip" and dw: "dropWhile isDigit (ip @ r1) = r1"
    using takeWhile_digits [OF ip r1] by simp_all
  have "ip @ r1 = [] \<or> isDigit (hd (ip @ r1)) \<or> hd (ip @ r1) = CHR ''.''"
    using ne ip by (cases ip; cases r1) (auto simp add: startsWith_def)
  then have inf: "\<not> startsWith (ip @ r1) ''Infinity''"
    by (rule unsigned_not_Infinity)
  show ?thesis
  proof (cases "startsWith r1 ''.''")
    case True
    from True ne have c: "ip \<noteq> [] \<or> takeWhile isDigit (tl r1) \<noteq> []" by blast
    from True obtain t where t: "r1 = CHR ''.'' # t"
      by (cases r1) (auto simp add: startsWith_def)
    have dr: "drop (Suc (length (takeWhile isDigit (tl r1)))) r1 = dropWhile isDigit (tl r1)"
      by (simp add: t dropWhile_eq_drop)
    from True c inf dr show ?thesis
      by (simp add: strUnsignedDecimalPrefix_def tw dw Let_def)
  next
    case False
    with ne have "ip \<noteq> []" by blast
    with False inf show ?thesis
      by (simp add: strUnsignedDecimalPrefix_def tw dw Let_def)
  qed
qed


lemma unsigned_None:
  assumes "\<not> startsWith u ''Infinity''" and "takeWhile isDigit u = []"
    and "\<not> (startsWith (dropWhile isDigit u) ''.'' \<and> takeWhile isDigit (tl (dropWhile isDigit u)) \<noteq> [])"
  shows "strUnsignedDecimalPrefix u = None"
  using assms by (auto simp add: strUnsignedDecimalPrefix_def Let_def)

lemma literal_fraction:
  assumes "decimalDigits ip" and "fp = [] \<or> decimalDigits fp" and "ex = [] \<or> isExponentPart ex"
  shows "isStrUnsignedDecimalLiteral (ip @ ''.'' @ fp @ ex)"
  using assms unfolding isStrUnsignedDecimalLiteral_def by blast

lemma literal_dot:
  assumes "decimalDigits fp" and "ex = [] \<or> isExponentPart ex"
  shows "isStrUnsignedDecimalLiteral (''.'' @ fp @ ex)"
  using assms unfolding isStrUnsignedDecimalLiteral_def by blast

lemma literal_digits:
  assumes "decimalDigits ip" and "ex = [] \<or> isExponentPart ex"
  shows "isStrUnsignedDecimalLiteral (ip @ ex)"
  using assms unfolding isStrUnsignedDecimalLiteral_def by blast

lemma takeWhile_decimalDigits:
  "takeWhile isDigit s = [] \<or> decimalDigits (takeWhile isDigit s)"
  by (auto simp add: decimalDigits_def dest: set_takeWhileD)

lemma unsigned_sound:
  assumes "strUnsignedDecimalPrefix u = Some l"
  shows "prefix l u \<and> isStrUnsignedDecimalLiteral l"
proof (cases "startsWith u ''Infinity''")
  case True
  with assms have "l = ''Infinity''" by (simp add: strUnsignedDecimalPrefix_def)
  with True show ?thesis by (simp add: startsWith_def isStrUnsignedDecimalLiteral_def)
next
  case False
  define ip where "ip = takeWhile isDigit u"
  define r1 where "r1 = dropWhile isDigit u"
  define fd where "fd = takeWhile isDigit (tl r1)"
  define r2 where "r2 = dropWhile isDigit (tl r1)"
  have u: "u = ip @ r1" unfolding ip_def r1_def by simp
  have ip: "\<forall>c \<in> set ip. isDigit c" unfolding ip_def by (auto dest: set_takeWhileD)
  have r1: "r1 = [] \<or> \<not> isDigit (hd r1)" unfolding r1_def by (rule dropWhile_digit_hd)
  have ipd: "ip = [] \<or> decimalDigits ip" unfolding ip_def by (rule takeWhile_decimalDigits)
  have fdd: "fd = [] \<or> decimalDigits fd" unfolding fd_def by (rule takeWhile_decimalDigits)
  have ne: "ip \<noteq> [] \<or> (startsWith r1 ''.'' \<and> fd \<noteq> [])"
  proof (rule ccontr)
    assume "\<not> (ip \<noteq> [] \<or> (startsWith r1 ''.'' \<and> fd \<noteq> []))"
    then have "strUnsignedDecimalPrefix u = None"
      unfolding ip_def r1_def fd_def using False by (intro unsigned_None) auto
    with assms show False by simp
  qed
  have l: "l = ip @ (if startsWith r1 ''.'' then (CHR ''.'' # fd) @ exponentPart r2 else exponentPart r1)"
    using unsigned_compute [OF ip r1] ne assms unfolding u fd_def r2_def by simp
  show ?thesis
  proof (cases "startsWith r1 ''.''")
    case True
    have r1s: "r1 = (CHR ''.'' # fd) @ r2"
      unfolding fd_def r2_def using True by (rule fraction_split)
    from exponentPart_sound [of r2] obtain rest where r2: "r2 = exponentPart r2 @ rest"
      and ex: "exponentPart r2 = [] \<or> isExponentPart (exponentPart r2)"
      by (auto simp add: prefix_def)
    from True l have l': "l = ip @ ''.'' @ fd @ exponentPart r2" by simp
    have "u = l @ rest"
      by (subst u, subst r1s, subst r2) (simp add: l')
    then have p: "prefix l u" by (simp add: prefix_def)
    have "isStrUnsignedDecimalLiteral l"
    proof (cases "ip = []")
      case True
      with ne have "fd \<noteq> []" by blast
      with fdd have "decimalDigits fd" by blast
      from literal_dot [OF this ex] True l' show ?thesis by simp
    next
      case False
      with ipd have "decimalDigits ip" by blast
      from literal_fraction [OF this fdd ex] l' show ?thesis by simp
    qed
    with p show ?thesis by blast
  next
    case False
    with ne ipd have d: "decimalDigits ip" by blast
    from exponentPart_sound [of r1] obtain rest where r1e: "r1 = exponentPart r1 @ rest"
      and ex: "exponentPart r1 = [] \<or> isExponentPart (exponentPart r1)"
      by (auto simp add: prefix_def)
    from False l have l': "l = ip @ exponentPart r1" by simp
    have "u = l @ rest"
      by (subst u, subst r1e) (simp add: l')
    then have p: "prefix l u" by (simp add: prefix_def)
    from literal_digits [OF d ex] l' p show ?thesis by simp
  qed
qed


lemma exponent_hd:
  assumes "isExponentPart ex"
  shows "ex \<noteq> [] \<and> \<not> isDigit (hd ex) \<and> \<not> startsWith (ex @ rest) ''.''"
  using assms symbol_not_digit unfolding isExponentPart_def
  by (auto simp add: startsWith_def)

lemma fraction_complete:
  assumes fp: "fp = [] \<or> decimalDigits fp" and ex: "ex = [] \<or> isExponentPart ex"
  shows "length (fp @ ex)
     \<le> length (takeWhile isDigit (fp @ ex @ rest) @ exponentPart (dropWhile isDigit (fp @ ex @ rest)))"
proof (cases "ex = []")
  case True
  have "\<forall>c \<in> set fp. isDigit c" using fp by (auto simp add: decimalDigits_def)
  then have "length fp \<le> length (takeWhile isDigit (fp @ rest))"
    by (rule takeWhile_digits_length)
  with True show ?thesis by simp
next
  case False
  with ex have e: "isExponentPart ex" by blast
  have all: "\<forall>c \<in> set fp. isDigit c" using fp by (auto simp add: decimalDigits_def)
  have hd: "ex @ rest = [] \<or> \<not> isDigit (hd (ex @ rest))"
    using exponent_hd [OF e, of rest] by (cases ex) auto
  have "takeWhile isDigit (fp @ ex @ rest) = fp" and "dropWhile isDigit (fp @ ex @ rest) = ex @ rest"
    using takeWhile_digits [OF all hd] by simp_all
  with exponentPart_complete [OF e, of rest] show ?thesis by simp
qed

lemma unsigned_complete:
  assumes "isStrUnsignedDecimalLiteral v"
  shows "\<exists>l. strUnsignedDecimalPrefix (v @ rest) = Some l \<and> length v \<le> length l"
proof -
  from assms consider
      (inf) "v = ''Infinity''"
    | (frac) ip fp ex where "v = ip @ ''.'' @ fp @ ex" "decimalDigits ip"
        "fp = [] \<or> decimalDigits fp" "ex = [] \<or> isExponentPart ex"
    | (dot) fp ex where "v = ''.'' @ fp @ ex" "decimalDigits fp" "ex = [] \<or> isExponentPart ex"
    | (digits) ip ex where "v = ip @ ex" "decimalDigits ip" "ex = [] \<or> isExponentPart ex"
    unfolding isStrUnsignedDecimalLiteral_def by blast
  then show ?thesis
  proof cases
    case inf
    then show ?thesis by (simp add: strUnsignedDecimalPrefix_def startsWith_def)
  next
    case frac
    define r1 where "r1 = ''.'' @ fp @ ex @ rest"
    have ip: "\<forall>c \<in> set ip. isDigit c" and ne: "ip \<noteq> []"
      using frac(2) by (auto simp add: decimalDigits_def)
    have r1: "r1 = [] \<or> \<not> isDigit (hd r1)"
      unfolding r1_def using symbol_not_digit by simp
    have dot: "startsWith r1 ''.''" and tl: "tl r1 = fp @ ex @ rest"
      unfolding r1_def by (simp_all add: startsWith_def)
    have "strUnsignedDecimalPrefix (ip @ r1) =
        Some (ip @ (CHR ''.'' # takeWhile isDigit (fp @ ex @ rest))
                 @ exponentPart (dropWhile isDigit (fp @ ex @ rest)))"
      using unsigned_compute [OF ip r1] ne dot by (simp add: tl)
    moreover have "v @ rest = ip @ r1"
      unfolding r1_def frac(1) by simp
    ultimately show ?thesis
      using fraction_complete [OF frac(3,4), of rest] by (simp add: frac(1))
  next
    case dot
    define r1 where "r1 = ''.'' @ fp @ ex @ rest"
    have fp: "\<forall>c \<in> set fp. isDigit c" and ne: "fp \<noteq> []"
      using dot(2) by (auto simp add: decimalDigits_def)
    have r1: "r1 = [] \<or> \<not> isDigit (hd r1)"
      unfolding r1_def using symbol_not_digit by simp
    have d: "startsWith r1 ''.''" and tl: "tl r1 = fp @ ex @ rest"
      unfolding r1_def by (simp_all add: startsWith_def)
    have "takeWhile isDigit (tl r1) \<noteq> []"
      using fp ne by (cases fp) (simp_all add: tl)
    with d have c: "[] \<noteq> ([]::string) \<or> (startsWith r1 ''.'' \<and> takeWhile isDigit (tl r1) \<noteq> [])"
      by blast
    have "strUnsignedDecimalPrefix ([] @ r1) =
        Some ([] @ (CHR ''.'' # takeWhile isDigit (fp @ ex @ rest))
                 @ exponentPart (dropWhile isDigit (fp @ ex @ rest)))"
      using unsigned_compute [OF _ r1 c] d by (simp add: tl)
    moreover have "v @ rest = [] @ r1"
      unfolding r1_def dot(1) by simp
    ultimately show ?thesis
      using fraction_complete [OF disjI2 [OF dot(2)] dot(3), of rest] by (simp add: dot(1))
  next
    case digits
    have ipd: "\<forall>c \<in> set ip. isDigit c" and ne: "ip \<noteq> []"
      using digits(2) by (auto simp add: decimalDigits_def)
    show ?thesis
    proof (cases "ex = []")
      case True
      define ip0 where "ip0 = takeWhile isDigit (ip @ rest)"
      define r1 where "r1 = dropWhile isDigit (ip @ rest)"
      have len: "length ip \<le> length ip0"
        unfolding ip0_def using ipd by (rule takeWhile_digits_length)
      with ne have ne0: "ip0 \<noteq> []" by auto
      have ip0: "\<forall>c \<in> set ip0. isDigit c" unfolding ip0_def by (auto dest: set_takeWhileD)
      have r1: "r1 = [] \<or> \<not> isDigit (hd r1)" unfolding r1_def by (rule dropWhile_digit_hd)
      have u: "v @ rest = ip0 @ r1"
        unfolding ip0_def r1_def by (simp add: digits(1) True)
      from unsigned_compute [OF ip0 r1] ne0 obtain tail where
        "strUnsignedDecimalPrefix (ip0 @ r1) = Some (ip0 @ tail)" by blast
      with len u show ?thesis by (simp add: digits(1) True)
    next
      case False
      with digits(3) have e: "isExponentPart ex" by blast
      define r1 where "r1 = ex @ rest"
      have r1: "r1 = [] \<or> \<not> isDigit (hd r1)"
        unfolding r1_def using exponent_hd [OF e, of rest] by (cases ex) auto
      have nd: "\<not> startsWith r1 ''.''"
        unfolding r1_def using exponent_hd [OF e, of rest] by blast
      have "strUnsignedDecimalPrefix (ip @ r1) = Some (ip @ exponentPart r1)"
        using unsigned_compute [OF ipd r1] ne nd by simp
      moreover have "v @ rest = ip @ r1"
        unfolding r1_def digits(1) by simp
      ultimately show ?thesis
        using exponentPart_complete [OF e, of rest] by (simp add: digits(1) r1_def)
    qed
  qed
qed


subsection \<open>The getters: the signed literal\<close>

lemma decimalDigits_hd: "decimalDigits ds \<Longrightarrow> ds \<noteq> [] \<and> isDigit (hd ds)"
  by (cases ds) (auto simp add: decimalDigits_def)

lemma unsigned_hd:
  assumes "isStrUnsignedDecimalLiteral u"
  shows "u \<noteq> [] \<and> (isDigit (hd u) \<or> hd u = CHR ''.'' \<or> hd u = CHR ''I'')"
  using assms decimalDigits_hd unfolding isStrUnsignedDecimalLiteral_def
  by (auto simp add: hd_append)

lemma unsigned_no_sign:
  assumes "isStrUnsignedDecimalLiteral u"
  shows "(if startsWith (u @ rest) ''+'' \<or> startsWith (u @ rest) ''-'' then take 1 (u @ rest) else []) = []"
  using unsigned_hd [OF assms] digit_not_symbol [of "hd u"]
  by (cases u) (auto simp add: startsWith_def)

lemma strDecimalPrefix_unsigned:
  assumes "isStrUnsignedDecimalLiteral u"
  shows "strDecimalPrefix (u @ rest) = strUnsignedDecimalPrefix (u @ rest)"
  by (simp add: strDecimalPrefix_def unsigned_no_sign [OF assms] split: option.splits)

lemma strDecimalPrefix_signed:
  assumes "sg = CHR ''+'' \<or> sg = CHR ''-''"
  shows "strDecimalPrefix (sg # t) =
     (case strUnsignedDecimalPrefix t of None \<Rightarrow> None | Some lit \<Rightarrow> Some (sg # lit))"
  using assms by (auto simp add: strDecimalPrefix_def startsWith_def split: option.splits)

lemma signed_complete:
  assumes "isStrDecimalLiteral v"
  shows "\<exists>l. strDecimalPrefix (v @ rest) = Some l \<and> length v \<le> length l"
proof -
  from assms consider (unsigned) "isStrUnsignedDecimalLiteral v"
    | (signed) sg u where "v = sg # u" "sg = CHR ''+'' \<or> sg = CHR ''-''" "isStrUnsignedDecimalLiteral u"
    unfolding isStrDecimalLiteral_def by blast
  then show ?thesis
  proof cases
    case unsigned
    with unsigned_complete [OF unsigned, of rest] show ?thesis
      by (simp add: strDecimalPrefix_unsigned)
  next
    case signed
    from unsigned_complete [OF signed(3), of rest] obtain l where
      "strUnsignedDecimalPrefix (u @ rest) = Some l" and "length u \<le> length l" by blast
    then show ?thesis
      by (simp add: signed(1) strDecimalPrefix_signed [OF signed(2)])
  qed
qed

lemma signed_sound:
  assumes "strDecimalPrefix t = Some l"
  shows "prefix l t \<and> isStrDecimalLiteral l"
proof (cases "startsWith t ''+'' \<or> startsWith t ''-''")
  case True
  then obtain sg t' where t: "t = sg # t'" and sg: "sg = CHR ''+'' \<or> sg = CHR ''-''"
    by (cases t) (auto simp add: startsWith_def)
  from assms obtain l0 where l0: "strUnsignedDecimalPrefix t' = Some l0" and l: "l = sg # l0"
    by (auto simp add: t strDecimalPrefix_signed [OF sg] split: option.splits)
  from unsigned_sound [OF l0] sg show ?thesis
    unfolding isStrDecimalLiteral_def by (auto simp add: t l)
next
  case False
  with assms have "strUnsignedDecimalPrefix t = Some l"
    by (simp add: strDecimalPrefix_def split: option.splits)
  from unsigned_sound [OF this] show ?thesis
    unfolding isStrDecimalLiteral_def by blast
qed

lemma literal_hd:
  assumes "isStrDecimalLiteral v"
  shows "v \<noteq> [] \<and> \<not> isWhiteSpace (hd v)"
proof -
  have "u \<noteq> [] \<and> \<not> isWhiteSpace (hd u)" if "isStrUnsignedDecimalLiteral u" for u
    using unsigned_hd [OF that] digit_not_space [of "hd u"] symbol_not_space by auto
  with assms symbol_not_space show ?thesis
    unfolding isStrDecimalLiteral_def by auto
qed

subsection \<open>The getters: parseFloat reads the longest literal\<close>

lemma parseFloat_Some: "parseFloat s = NumberOf lit \<longleftrightarrow> strDecimalPrefix (trimStart s) = Some lit"
  by (simp add: parseFloat_def split: option.splits)

lemma parseFloat_sound:
  assumes "parseFloat s = NumberOf lit"
  shows "decimalLiteralOf s lit"
proof -
  from assms have p: "strDecimalPrefix (trimStart s) = Some lit" by (simp add: parseFloat_Some)
  from signed_sound [OF p] obtain rest where t: "trimStart s = lit @ rest"
    and lit: "isStrDecimalLiteral lit"
    by (auto simp add: prefix_def)
  have s: "s = takeWhile isWhiteSpace s @ lit @ rest"
    by (subst t [symmetric]) (rule trimStart_split)
  have longest: "length lit' \<le> length lit" if "isStrDecimalLiteral lit'" and "prefix lit' (lit @ rest)" for lit'
  proof -
    from that(2) obtain rest' where r: "lit @ rest = lit' @ rest'" by (auto simp add: prefix_def)
    from signed_complete [OF that(1), of rest'] obtain l where
      "strDecimalPrefix (lit' @ rest') = Some l" and "length lit' \<le> length l" by blast
    with p show ?thesis by (simp add: t r)
  qed
  from s trimStart_space [of s] lit longest show ?thesis
    unfolding decimalLiteralOf_def by blast
qed

lemma parseFloat_complete:
  assumes "decimalLiteralOf s lit"
  shows "parseFloat s = NumberOf lit"
proof -
  from assms obtain ws rest where s: "s = ws @ lit @ rest" and ws: "\<forall>c \<in> set ws. isWhiteSpace c"
    and lit: "isStrDecimalLiteral lit"
    and longest: "\<And>lit'. isStrDecimalLiteral lit' \<Longrightarrow> prefix lit' (lit @ rest) \<Longrightarrow> length lit' \<le> length lit"
    unfolding decimalLiteralOf_def by blast
  have "lit @ rest = [] \<or> \<not> isWhiteSpace (hd (lit @ rest))"
    using literal_hd [OF lit] by (cases lit) auto
  then have t: "trimStart s = lit @ rest"
    unfolding s using ws by (intro trimStart_append)
  from signed_complete [OF lit, of rest] obtain l where
    l: "strDecimalPrefix (lit @ rest) = Some l" and le: "length lit \<le> length l" by blast
  from signed_sound [OF l] have pl: "prefix l (lit @ rest)" and "isStrDecimalLiteral l" by blast+
  then have "length l \<le> length lit" by (intro longest)
  with le have "length l = length lit" by simp
  with pl have "l = lit" by (auto simp add: prefix_def append_eq_append_conv)
  with l t show ?thesis by (simp add: parseFloat_Some)
qed


subsection \<open>The getters: split and join\<close>

lemma indexOf_decomp:
  "indexOf s p = Some i \<Longrightarrow> s = take i s @ p @ drop (i + length p) s"
proof (induction s arbitrary: i)
  case Nil
  then show ?case by (simp split: if_splits)
next
  case (Cons c cs)
  show ?case
  proof (cases "prefix p (c # cs)")
    case True
    with Cons.prems have "i = 0" by simp
    with True show ?thesis by (auto simp add: prefix_def)
  next
    case False
    with Cons.prems obtain j where j: "indexOf cs p = Some j" and i: "i = Suc j" by auto
    from Cons.IH [OF j] show ?thesis by (simp add: i)
  qed
qed

lemma indexOf_char_None: "indexOf s [c] = None \<Longrightarrow> c \<notin> set s"
  by (induction s) (auto split: if_splits)

lemma indexOf_char_Some: "indexOf s [c] = Some i \<Longrightarrow> c \<notin> set (take i s)"
proof (induction s arbitrary: i)
  case Nil
  then show ?case by simp
next
  case (Cons x xs)
  show ?case
  proof (cases "x = c")
    case True
    with Cons.prems show ?thesis by simp
  next
    case False
    with Cons.prems obtain j where j: "indexOf xs [c] = Some j" and i: "i = Suc j" by auto
    from Cons.IH [OF j] False show ?thesis by (simp add: i)
  qed
qed

lemma join_Cons: "xs \<noteq> [] \<Longrightarrow> join (x # xs) sep = x @ sep @ join xs sep"
  by (cases xs) simp_all

lemma join_split_str: "sep \<noteq> [] \<Longrightarrow> join (split_str s sep) sep = s"
proof (induction s sep rule: split_str.induct)
  case (1 s sep)
  show ?case
  proof (cases "indexOf s sep")
    case None
    with "1.prems" show ?thesis by (simp add: split_str_not_found)
  next
    case (Some i)
    have "join (split_str s sep) sep
        = take i s @ sep @ join (split_str (drop (i + length sep) s) sep) sep"
      using "1.prems" Some by (simp add: split_str_found join_Cons split_str_not_Nil)
    also have "\<dots> = take i s @ sep @ drop (i + length sep) s"
      using "1.IH" [OF "1.prems" Some "1.prems"] by simp
    also have "\<dots> = s"
      using indexOf_decomp [OF Some] by simp
    finally show ?thesis .
  qed
qed

lemma split_str_no_char: "p \<in> set (split_str s [c]) \<Longrightarrow> c \<notin> set p"
proof (induction s "[c]" arbitrary: p rule: split_str.induct)
  case (1 s)
  show ?case
  proof (cases "indexOf s [c]")
    case None
    with "1.prems" indexOf_char_None [OF None] show ?thesis
      by (simp add: split_str_not_found)
  next
    case (Some i)
    with "1.prems" have "p = take i s \<or> p \<in> set (split_str (drop (i + length [c]) s) [c])"
      by (simp add: split_str_found)
    then show ?thesis
    proof
      assume "p = take i s"
      with indexOf_char_Some [OF Some] show ?thesis by simp
    next
      assume "p \<in> set (split_str (drop (i + length [c]) s) [c])"
      with "1.hyps" [OF _ Some] show ?thesis by simp
    qed
  qed
qed


lemma getBool_stored:
  "getBool c key \<longleftrightarrow> (\<exists>v. stored c (fst (addressed key)) (snd (addressed key)) = Some v \<and> v \<noteq> [])"
  by (simp add: getBool_def get_stored split: option.splits)

lemma parseInt10_iff: "parseInt10 s = NumberOf lit \<longleftrightarrow> integerNumeralOf s lit"
  using parseInt10_sound parseInt10_numeral by blast

lemma parseFloat_iff: "parseFloat s = NumberOf lit \<longleftrightarrow> decimalLiteralOf s lit"
  using parseFloat_sound parseFloat_complete by blast

lemma number_NaN: "n = NaN \<longleftrightarrow> \<not> (\<exists>lit. n = NumberOf lit)"
  by (cases n) simp_all

text \<open>
  C7, as the code has it by design. \<open>getBool\<close> is true exactly when a string that is
  not empty is stored under the key. \<open>getStrings\<close> returns the pieces of the result of
  \<open>get\<close> between its commas: at least one piece, none with a comma, and joined with
  commas they give the result of \<open>get\<close> back. \<open>getInt\<close> and \<open>getFloat\<close> are total
  (nothing is thrown): they skip white space and read the numeral the text begins with,
  for \<open>getInt\<close> a sign and the whole run of digits, for \<open>getFloat\<close> the longest decimal
  literal, whatever follows it; and they are NaN exactly when the text begins with no
  numeral.
\<close>

theorem getter_coercions:
  "(getBool c key \<longleftrightarrow>
      (\<exists>v. stored c (fst (addressed key)) (snd (addressed key)) = Some v \<and> v \<noteq> []))
   \<and> getStrings c key \<noteq> []
   \<and> join (getStrings c key) '','' = get c key
   \<and> (\<forall>p \<in> set (getStrings c key). CHR '','' \<notin> set p)
   \<and> (\<forall>lit. getInt c key = NumberOf lit \<longleftrightarrow> integerNumeralOf (get c key) lit)
   \<and> (getInt c key = NaN \<longleftrightarrow> \<not> (\<exists>lit. integerNumeralOf (get c key) lit))
   \<and> (\<forall>lit. getFloat c key = NumberOf lit \<longleftrightarrow> decimalLiteralOf (get c key) lit)
   \<and> (getFloat c key = NaN \<longleftrightarrow> \<not> (\<exists>lit. decimalLiteralOf (get c key) lit))"
proof -
  have b: "getBool c key \<longleftrightarrow>
      (\<exists>v. stored c (fst (addressed key)) (snd (addressed key)) = Some v \<and> v \<noteq> [])"
    by (rule getBool_stored)
  have s0: "getStrings c key \<noteq> []"
    by (simp add: getStrings_def split_str_not_Nil)
  have s1: "join (getStrings c key) '','' = get c key"
    by (simp add: getStrings_def join_split_str)
  have s2: "\<forall>p \<in> set (getStrings c key). CHR '','' \<notin> set p"
    using split_str_no_char [of _ "get c key" "CHR '',''"] by (simp add: getStrings_def)
  have i1: "\<forall>lit. getInt c key = NumberOf lit \<longleftrightarrow> integerNumeralOf (get c key) lit"
    by (simp add: getInt_def parseInt10_iff)
  have i2: "getInt c key = NaN \<longleftrightarrow> \<not> (\<exists>lit. integerNumeralOf (get c key) lit)"
    by (simp only: number_NaN [of "getInt c key"] i1)
  have f1: "\<forall>lit. getFloat c key = NumberOf lit \<longleftrightarrow> decimalLiteralOf (get c key) lit"
    by (simp add: getFloat_def parseFloat_iff)
  have f2: "getFloat c key = NaN \<longleftrightarrow> \<not> (\<exists>lit. decimalLiteralOf (get c key) lit)"
    by (simp only: number_NaN [of "getFloat c key"] f1)
  from b s0 s1 s2 i1 i2 f1 f2 show ?thesis by (intro conjI)
qed

theorem getter_coercions_witness:
  "integerNumeralOf '' -12abc'' ''-12''
   \<and> decimalLiteralOf '' -12.5e3x'' ''-12.5e3''
   \<and> \<not> (\<exists>lit. integerNumeralOf ''x1,5'' lit)
   \<and> \<not> (\<exists>lit. decimalLiteralOf ''x1,5'' lit)
   \<and> join (getStrings \<lparr>data = [''default'' \<mapsto> [''n'' \<mapsto> ''x1,5'']]\<rparr> ''n'') '','' = ''x1,5''
   \<and> ''x1'' \<in> set (getStrings \<lparr>data = [''default'' \<mapsto> [''n'' \<mapsto> ''x1,5'']]\<rparr> ''n'')
   \<and> CHR '','' \<notin> set ''x1''
   \<and> \<not> getBool newConfig ''n''"
proof -
  let ?a = "\<lparr>data = [''default'' \<mapsto> [''n'' \<mapsto> '' -12abc'']]\<rparr>"
  let ?b = "\<lparr>data = [''default'' \<mapsto> [''n'' \<mapsto> '' -12.5e3x'']]\<rparr>"
  let ?c = "\<lparr>data = [''default'' \<mapsto> [''n'' \<mapsto> ''x1,5'']]\<rparr>"
  have ga: "get ?a ''n'' = '' -12abc''" by code_simp
  have gb: "get ?b ''n'' = '' -12.5e3x''" by code_simp
  have gc: "get ?c ''n'' = ''x1,5''" by code_simp
  have ia: "getInt ?a ''n'' = NumberOf ''-12''" by code_simp
  have fb: "getFloat ?b ''n'' = NumberOf ''-12.5e3''" by code_simp
  have ic: "getInt ?c ''n'' = NaN" by code_simp
  have fc: "getFloat ?c ''n'' = NaN" by code_simp
  note ta = getter_coercions [of ?a "''n''"]
  note tb = getter_coercions [of ?b "''n''"]
  note tc = getter_coercions [of ?c "''n''"]
  note tn = getter_coercions [of newConfig "''n''"]
  have w1: "integerNumeralOf '' -12abc'' ''-12''"
    using ta [THEN conjunct2, THEN conjunct2, THEN conjunct2, THEN conjunct2, THEN conjunct1] ia
    by (simp only: ga) blast
  have w2: "decimalLiteralOf '' -12.5e3x'' ''-12.5e3''"
    using tb [THEN conjunct2, THEN conjunct2, THEN conjunct2, THEN conjunct2, THEN conjunct2,
        THEN conjunct2, THEN conjunct1] fb
    by (simp only: gb) blast
  have w3: "\<not> (\<exists>lit. integerNumeralOf ''x1,5'' lit)"
    using tc [THEN conjunct2, THEN conjunct2, THEN conjunct2, THEN conjunct2, THEN conjunct2,
        THEN conjunct1] ic
    by (simp only: gc) blast
  have w4: "\<not> (\<exists>lit. decimalLiteralOf ''x1,5'' lit)"
    using tc [THEN conjunct2, THEN conjunct2, THEN conjunct2, THEN conjunct2, THEN conjunct2,
        THEN conjunct2, THEN conjunct2] fc
    by (simp only: gc) blast
  have w5: "join (getStrings ?c ''n'') '','' = ''x1,5''"
    using tc [THEN conjunct2, THEN conjunct2, THEN conjunct1] by (simp only: gc)
  have w6: "''x1'' \<in> set (getStrings ?c ''n'')" by code_simp
  have w6': "CHR '','' \<notin> set ''x1''"
    using tc [THEN conjunct2, THEN conjunct2, THEN conjunct2, THEN conjunct1] w6 by blast
  have "stored newConfig (fst (addressed ''n'')) (snd (addressed ''n'')) = None"
    by (simp add: stored_def newConfig_def)
  then have w7: "\<not> getBool newConfig ''n''"
    using tn [THEN conjunct1] by simp
  from w1 w2 w3 w4 w5 w6 w6' w7 show ?thesis by (intro conjI)
qed

text \<open>
  C7 as stated does not hold: the text \<open>12abc\<close> is not a decimal numeral, and both
  getters return the number 12 for it, not NaN.
\<close>

theorem getter_coercions_counterexample:
  "\<not> isStrDecimalLiteral ''12abc''
   \<and> getInt \<lparr>data = [''default'' \<mapsto> [''n'' \<mapsto> ''12abc'']]\<rparr> ''n'' = NumberOf ''12''
   \<and> getInt \<lparr>data = [''default'' \<mapsto> [''n'' \<mapsto> ''12abc'']]\<rparr> ''n'' \<noteq> NaN
   \<and> getFloat \<lparr>data = [''default'' \<mapsto> [''n'' \<mapsto> ''12abc'']]\<rparr> ''n'' = NumberOf ''12''
   \<and> getFloat \<lparr>data = [''default'' \<mapsto> [''n'' \<mapsto> ''12abc'']]\<rparr> ''n'' \<noteq> NaN"
proof -
  have p: "strDecimalPrefix ''12abc'' = Some ''12''" by code_simp
  have a: "\<not> isStrDecimalLiteral ''12abc''"
  proof
    assume "isStrDecimalLiteral ''12abc''"
    from signed_complete [OF this, of "[]"] p show False by simp
  qed
  have b: "getInt \<lparr>data = [''default'' \<mapsto> [''n'' \<mapsto> ''12abc'']]\<rparr> ''n'' = NumberOf ''12''"
    by code_simp
  have c: "getFloat \<lparr>data = [''default'' \<mapsto> [''n'' \<mapsto> ''12abc'']]\<rparr> ''n'' = NumberOf ''12''"
    by code_simp
  from a b c show ?thesis by simp
qed

subsection \<open>The validation of a matcher\<close>

lemma matcherErrors_flat:
  "matcherErrors v =
     (if filter (\<lambda>prop. prop \<notin> set validProps) (matchProps v) \<noteq> []
      then [''Invalid properties: '' @ join (filter (\<lambda>prop. prop \<notin> set validProps) (matchProps v)) '', '']
      else [])
     @ (if includes_str v ''..'' then [''Found extra dots''] else [])
     @ (if endsWith (trim v) '','' then [''Unnecessary comma''] else [])
     @ (if countChar CHR ''('' v \<noteq> countChar CHR '')'' v then [''Mismatched parentheses''] else [])"
  by (simp add: matcherErrors_def Let_def)

lemma matcherErrors_Nil:
  "matcherErrors v = [] \<longleftrightarrow>
     (\<forall>t \<in> set (matchProps v). t \<in> set validProps) \<and> \<not> includes_str v ''..''
     \<and> \<not> endsWith (trim v) '','' \<and> countChar CHR ''('' v = countChar CHR '')'' v"
  by (auto simp add: matcherErrors_flat filter_empty_conv)

lemma validateMatcher_errors:
  "validateMatcher v n =
     (if matcherErrors v = [] then Inr () else Inl (Error (join (matcherErrors v) '', '')))"
  by (simp add: validateMatcher_def Let_def)

lemma write_line_split:
  "write_line c section n line =
     (case splitEntry line of
        None \<Rightarrow> Inl (Error (''parse the content error : line '' @ showNat n))
      | Some (key, value) \<Rightarrow>
          (if section = ''matchers'' \<and> matcherErrors value \<noteq> []
           then Inl (Error (join (matcherErrors value) '', ''))
           else Inr (fst (addConfig c section key value))))"
  by (simp add: write_line_def splitEntry_def substring_def validateMatcher_errors Let_def
      split: option.splits)

text \<open>
  C2. A value is accepted by \<open>validateMatcher\<close> exactly when every match of
  \<open>[rp]\.\w+\<close> in it is one of the seven valid properties, it has no \<open>..\<close>, it does not
  end (trimmed) with a comma and it has as many \<open>(\<close> as \<open>)\<close>. Otherwise one error is
  thrown whose message joins, with \<open>, \<close>, the message of every defect that is present.
  \<open>write\<close> validates the value of a line of the section \<open>matchers\<close>, and of no other
  section, before it inserts it, and inserts nothing when the validation fails. The
  value \<open>r.sub == p.sub && r.obj == p.obj\<close> is accepted; the four values of the
  specification are rejected.
\<close>

theorem matcher_validation:
  "(validateMatcher v n = Inr () \<longleftrightarrow>
      (\<forall>t \<in> set (matchProps v). t \<in> set validProps) \<and> \<not> includes_str v ''..''
      \<and> \<not> endsWith (trim v) '','' \<and> countChar CHR ''('' v = countChar CHR '')'' v)
   \<and> (validateMatcher v n \<noteq> Inr () \<longrightarrow>
        validateMatcher v n = Inl (Error (join (matcherErrors v) '', '')))
   \<and> matcherErrors v =
       (if filter (\<lambda>prop. prop \<notin> set validProps) (matchProps v) \<noteq> []
        then [''Invalid properties: '' @ join (filter (\<lambda>prop. prop \<notin> set validProps) (matchProps v)) '', '']
        else [])
       @ (if includes_str v ''..'' then [''Found extra dots''] else [])
       @ (if endsWith (trim v) '','' then [''Unnecessary comma''] else [])
       @ (if countChar CHR ''('' v \<noteq> countChar CHR '')'' v then [''Mismatched parentheses''] else [])
   \<and> (splitEntry line = Some (key, v) \<longrightarrow>
        write_line c ''matchers'' n line =
          (case validateMatcher v n of
             Inl e \<Rightarrow> Inl e
           | Inr u \<Rightarrow> Inr (fst (addConfig c ''matchers'' key v))))
   \<and> (splitEntry line = Some (key, v) \<and> sec \<noteq> ''matchers'' \<longrightarrow>
        write_line c sec n line = Inr (fst (addConfig c sec key v)))
   \<and> validateMatcher ''r.sub == p.sub && r.obj == p.obj'' n = Inr ()
   \<and> validateMatcher ''r.sub == p.sub..'' n = Inl (Error ''Found extra dots'')
   \<and> validateMatcher ''r.sub == p.sub,'' n = Inl (Error ''Unnecessary comma'')
   \<and> validateMatcher ''(r.sub == p.sub'' n = Inl (Error ''Mismatched parentheses'')
   \<and> validateMatcher ''r.foo == p.sub'' n = Inl (Error ''Invalid properties: r.foo'')"
proof -
  have accept: "validateMatcher v n = Inr () \<longleftrightarrow> matcherErrors v = []"
    by (simp add: validateMatcher_errors)
  have e0: "matcherErrors ''r.sub == p.sub && r.obj == p.obj'' = []" by code_simp
  have e1: "matcherErrors ''r.sub == p.sub..'' = [''Found extra dots'']" by code_simp
  have e2: "matcherErrors ''r.sub == p.sub,'' = [''Unnecessary comma'']" by code_simp
  have e3: "matcherErrors ''(r.sub == p.sub'' = [''Mismatched parentheses'']" by code_simp
  have e4: "matcherErrors ''r.foo == p.sub'' = [''Invalid properties: r.foo'']" by code_simp
  have p1: "validateMatcher v n = Inr () \<longleftrightarrow>
      (\<forall>t \<in> set (matchProps v). t \<in> set validProps) \<and> \<not> includes_str v ''..''
      \<and> \<not> endsWith (trim v) '','' \<and> countChar CHR ''('' v = countChar CHR '')'' v"
    by (simp only: accept matcherErrors_Nil)
  have p2: "validateMatcher v n \<noteq> Inr () \<longrightarrow>
        validateMatcher v n = Inl (Error (join (matcherErrors v) '', ''))"
    by (simp add: validateMatcher_errors)
  have p4: "splitEntry line = Some (key, v) \<longrightarrow>
        write_line c ''matchers'' n line =
          (case validateMatcher v n of
             Inl e \<Rightarrow> Inl e
           | Inr u \<Rightarrow> Inr (fst (addConfig c ''matchers'' key v)))"
    by (simp add: write_line_split validateMatcher_errors)
  have p5: "splitEntry line = Some (key, v) \<and> sec \<noteq> ''matchers'' \<longrightarrow>
        write_line c sec n line = Inr (fst (addConfig c sec key v))"
    by (simp add: write_line_split)
  have p6: "validateMatcher ''r.sub == p.sub && r.obj == p.obj'' n = Inr ()"
    by (simp add: validateMatcher_errors e0)
  have p7: "validateMatcher ''r.sub == p.sub..'' n = Inl (Error ''Found extra dots'')"
    by (simp add: validateMatcher_errors e1)
  have p8: "validateMatcher ''r.sub == p.sub,'' n = Inl (Error ''Unnecessary comma'')"
    by (simp add: validateMatcher_errors e2)
  have p9: "validateMatcher ''(r.sub == p.sub'' n = Inl (Error ''Mismatched parentheses'')"
    by (simp add: validateMatcher_errors e3)
  have p10: "validateMatcher ''r.foo == p.sub'' n = Inl (Error ''Invalid properties: r.foo'')"
    by (simp add: validateMatcher_errors e4)
  from p1 p2 matcherErrors_flat [of v] p4 p5 p6 p7 p8 p9 p10 show ?thesis
    by (intro conjI)
qed

theorem matcher_validation_witness:
  "validateMatcher ''r.sub == p.sub && r.act == p.act'' 2 = Inr ()
   \<and> validateMatcher ''(r.foo == p.sub..,'' 2 =
       Inl (Error ''Invalid properties: r.foo, Found extra dots, Unnecessary comma, Mismatched parentheses'')
   \<and> write_line newConfig ''matchers'' 2 ''m = r.sub == p.sub,'' = Inl (Error ''Unnecessary comma'')
   \<and> write_line newConfig ''p'' 2 ''m = r.sub == p.sub,''
       = Inr (fst (addConfig newConfig ''p'' ''m'' ''r.sub == p.sub,''))
   \<and> get (fst (addConfig newConfig ''p'' ''m'' ''r.sub == p.sub,'')) ''p::m'' = ''r.sub == p.sub,''"
proof -
  let ?ok = "''r.sub == p.sub && r.act == p.act''"
  let ?bad = "''(r.foo == p.sub..,''"
  let ?line = "''m = r.sub == p.sub,''"
  have h1: "\<forall>t \<in> set (matchProps ?ok). t \<in> set validProps" by code_simp
  have h2: "\<not> includes_str ?ok ''..''" by code_simp
  have h3: "\<not> endsWith (trim ?ok) '',''" by code_simp
  have h4: "countChar CHR ''('' ?ok = countChar CHR '')'' ?ok" by code_simp
  have w1: "validateMatcher ?ok 2 = Inr ()"
    using matcher_validation [where v = ?ok and n = 2, THEN conjunct1] h1 h2 h3 h4 by blast
  have b1: "includes_str ?bad ''..''" by code_simp
  have b2: "matcherErrors ?bad =
      [''Invalid properties: r.foo'', ''Found extra dots'', ''Unnecessary comma'',
       ''Mismatched parentheses'']"
    by code_simp
  have "validateMatcher ?bad 2 \<noteq> Inr ()"
    using matcher_validation [where v = ?bad and n = 2, THEN conjunct1] b1 by blast
  then have "validateMatcher ?bad 2 = Inl (Error (join (matcherErrors ?bad) '', ''))"
    using matcher_validation [where v = ?bad and n = 2, THEN conjunct2, THEN conjunct1] by blast
  then have w2: "validateMatcher ?bad 2 =
      Inl (Error ''Invalid properties: r.foo, Found extra dots, Unnecessary comma, Mismatched parentheses'')"
    by (simp add: b2)
  have sp: "splitEntry ?line = Some (''m'', ''r.sub == p.sub,'')" by code_simp
  have w3: "write_line newConfig ''matchers'' 2 ?line = Inl (Error ''Unnecessary comma'')"
    using matcher_validation [where v = "''r.sub == p.sub,''" and n = 2 and line = ?line
        and key = "''m''" and c = newConfig, THEN conjunct2, THEN conjunct2, THEN conjunct2,
        THEN conjunct1]
      matcher_validation [where n = 2, THEN conjunct2, THEN conjunct2, THEN conjunct2,
        THEN conjunct2, THEN conjunct2, THEN conjunct2, THEN conjunct2, THEN conjunct1] sp
    by simp
  have ne: "''p'' \<noteq> ''matchers''" by simp
  have w4: "write_line newConfig ''p'' 2 ?line
      = Inr (fst (addConfig newConfig ''p'' ''m'' ''r.sub == p.sub,''))"
    using matcher_validation [where v = "''r.sub == p.sub,''" and n = 2 and line = ?line
        and key = "''m''" and c = newConfig and sec = "''p''", THEN conjunct2, THEN conjunct2,
        THEN conjunct2, THEN conjunct2, THEN conjunct1] sp ne
    by blast
  have w5: "get (fst (addConfig newConfig ''p'' ''m'' ''r.sub == p.sub,'')) ''p::m'' = ''r.sub == p.sub,''"
    by code_simp
  from w1 w2 w3 w4 w5 show ?thesis by (intro conjI)
qed

subsection \<open>Runs of the parser on concrete texts\<close>

lemma parseThenGet_Inl: "parseThenGet text key = Inl e \<longleftrightarrow> newConfigFromText text = Inl e"
  by (simp add: parseThenGet_def split: sum.splits)

text \<open>
  Two facts on what the code does do: a line that is neither blank nor a header and is
  the last of the lines is flushed, continuation or not; and \<open>write\<close> throws the error
  \<open>parse the content error\<close> exactly for a logical line without \<open>=\<close>.
\<close>

lemma forced_flush_on_last_line:
  assumes "trim (stripComments n) \<noteq> []" and "headerName n = None" and "index + 1 = linesCount"
  shows "\<exists>line. flushOf linesCount st n index = Some (cur_section st, line)
     \<and> parseLine linesCount st n index =
         (case write_line (config st) (cur_section st) linesCount line of
            Inl e \<Rightarrow> Inl e
          | Inr c \<Rightarrow> Inr (st\<lparr>config := c, currentLine := []\<rparr>))"
  using assms
  by (auto simp add: parseLine_def flushOf_def headerName_def Let_def split: if_splits)

lemma matcher_message_first:
  assumes "matcherErrors v \<noteq> []"
  shows "hd (join (matcherErrors v) '', '') \<in> {CHR ''I'', CHR ''F'', CHR ''U'', CHR ''M''}"
  using assms by (auto simp add: matcherErrors_flat split: if_splits)

lemma parse_content_error_iff:
  "(\<exists>m. write_line c s n line = Inl (Error (''parse the content error : line '' @ m)))
     \<longleftrightarrow> splitEntry line = None"
proof (cases "splitEntry line")
  case None
  then show ?thesis by (simp add: write_line_split)
next
  case (Some kv)
  obtain k v where kv: "kv = (k, v)" by (cases kv)
  show ?thesis
  proof (cases "s = ''matchers'' \<and> matcherErrors v \<noteq> []")
    case True
    then have "hd (join (matcherErrors v) '', '') \<noteq> CHR ''p''"
      using matcher_message_first [of v] by auto
    then have "join (matcherErrors v) '', '' \<noteq> ''parse the content error : line '' @ m" for m
      by auto
    with True Some kv show ?thesis by (simp add: write_line_split)
  next
    case False
    with Some kv show ?thesis by (auto simp add: write_line_split)
  qed
qed

text \<open>
  C3, as the code has it. The text of the two lines \<open>a = 1 \\<close> and \<open>+ 2\<close> parses to
  the single entry with the key \<open>a\<close> and the value \<open>1+ 2\<close>: the backslash is dropped, the
  rest of the first line is trimmed (which removes the blank before the backslash), and
  the second line is appended with no separator.
\<close>

theorem continuation_value:
  "parseThenGet (''a = 1 '' @ [CHR 0x5C, CHR 0x0A] @ ''+ 2'') ''a'' = Inr ''1+ 2''
   \<and> written (''a = 1 '' @ [CHR 0x5C, CHR 0x0A] @ ''+ 2'') = [(''default'', ''a'', ''1+ 2'')]"
  by code_simp

text \<open>C3 as stated, with the value \<open>1 + 2\<close>, does not hold.\<close>

theorem continuation_counterexample:
  "parseThenGet (''a = 1 '' @ [CHR 0x5C, CHR 0x0A] @ ''+ 2'') ''a'' \<noteq> Inr ''1 + 2''"
  by code_simp

text \<open>
  C5 at a text with an empty line: the line \<open>foo\<close>, without \<open>=\<close>, is the third line of
  the text, and the error cites line 2, the empty line not being counted.
\<close>

theorem missing_equals_line_number:
  "split_str (''[r]'' @ [CHR 0x0A, CHR 0x0A] @ ''foo'') [CHR 0x0A] = [''[r]'', [], ''foo'']
   \<and> newConfigFromText (''[r]'' @ [CHR 0x0A, CHR 0x0A] @ ''foo'')
       = Inl (Error ''parse the content error : line 2'')"
proof -
  have "split_str (''[r]'' @ [CHR 0x0A, CHR 0x0A] @ ''foo'') [CHR 0x0A] = [''[r]'', [], ''foo'']"
    by code_simp
  moreover have "parseThenGet (''[r]'' @ [CHR 0x0A, CHR 0x0A] @ ''foo'') []
      = Inl (Error ''parse the content error : line 2'')"
    by code_simp
  then have "newConfigFromText (''[r]'' @ [CHR 0x0A, CHR 0x0A] @ ''foo'')
      = Inl (Error ''parse the content error : line 2'')"
    by (simp only: parseThenGet_Inl)
  ultimately show ?thesis by (intro conjI)
qed

text \<open>
  C9 at a text whose continuation line is followed by a comment line: the run ends
  without an error, the pending line \<open>a = 1\<close> is never flushed, and nothing is inserted.
\<close>

theorem pending_line_dropped:
  "parseThenGet (''a = 1 '' @ [CHR 0x5C, CHR 0x0A] @ ''# end'') ''a'' = Inr []
   \<and> written (''a = 1 '' @ [CHR 0x5C, CHR 0x0A] @ ''# end'') = []
   \<and> parseThenGet (''a = 1 '' @ [CHR 0x5C]) ''a'' = Inr ''1''"
  by code_simp

subsection \<open>Section headers\<close>

lemma headerName_Some:
  "headerName n = Some name \<longleftrightarrow>
     trim (stripComments n) \<noteq> [] \<and> startsWith (trim (stripComments n)) ''[''
     \<and> endsWith (trim (stripComments n)) '']''
     \<and> name = substring (trim (stripComments n)) 1 (length (trim (stripComments n)) - 1)"
  by (auto simp add: headerName_def Let_def startsWith_def)

lemma parseLine_header:
  assumes "headerName n = Some name"
  shows "parseLine linesCount st n index =
       (case (if currentLine st \<noteq> []
              then write_line (config st) (cur_section st) ((index + 1) - 1) (currentLine st)
              else Inr (config st)) of
          Inl e \<Rightarrow> Inl e
        | Inr c \<Rightarrow>
            if name \<in> seenSections st
            then Inl (Error (''Duplicated section: '' @ name @ '' at line '' @ showNat (index + 1)))
            else Inr \<lparr>config = c, cur_section = name, currentLine = [],
                      seenSections = insert name (seenSections st)\<rparr>)"
  using assms
  by (simp add: headerName_Some parseLine_def Let_def split: sum.splits)

text \<open>
  On a section header line that finds the continuation buffer not empty, the callback
  first hands the buffer to \<open>write\<close> with the section that was active until then and
  with the number \<open>(index + 1) - 1\<close>, the header's being \<open>index + 1\<close>, and only then opens
  the new section.
\<close>

lemma flush_at_section_header:
  assumes "headerName n = Some name" and "currentLine st \<noteq> []"
  shows "parseLine linesCount st n index =
       (case write_line (config st) (cur_section st) ((index + 1) - 1) (currentLine st) of
          Inl e \<Rightarrow> Inl e
        | Inr c \<Rightarrow>
            if name \<in> seenSections st
            then Inl (Error (''Duplicated section: '' @ name @ '' at line '' @ showNat (index + 1)))
            else Inr \<lparr>config = c, cur_section = name, currentLine = [],
                      seenSections = insert name (seenSections st)\<rparr>)
     \<and> flushOf linesCount st n index = Some (cur_section st, currentLine st)
     \<and> (splitEntry (currentLine st) = None \<longrightarrow>
          parseLine linesCount st n index
            = Inl (Error (''parse the content error : line '' @ showNat ((index + 1) - 1))))
     \<and> (\<forall>st'. parseLine linesCount st n index = Inr st' \<longrightarrow>
          (\<exists>key value. splitEntry (currentLine st) = Some (key, value)
             \<and> config st' = fst (addConfig (config st) (cur_section st) key value)
             \<and> cur_section st' = name \<and> currentLine st' = []))"
proof -
  have eq: "parseLine linesCount st n index =
       (case write_line (config st) (cur_section st) ((index + 1) - 1) (currentLine st) of
          Inl e \<Rightarrow> Inl e
        | Inr c \<Rightarrow>
            if name \<in> seenSections st
            then Inl (Error (''Duplicated section: '' @ name @ '' at line '' @ showNat (index + 1)))
            else Inr \<lparr>config = c, cur_section = name, currentLine = [],
                      seenSections = insert name (seenSections st)\<rparr>)"
    using parseLine_header [OF assms(1), of linesCount st index] assms(2) by simp
  have fl: "flushOf linesCount st n index = Some (cur_section st, currentLine st)"
    using assms by (simp add: headerName_Some flushOf_def Let_def)
  have none: "splitEntry (currentLine st) = None \<longrightarrow>
      parseLine linesCount st n index
        = Inl (Error (''parse the content error : line '' @ showNat ((index + 1) - 1)))"
    by (simp add: eq write_line_split)
  have some: "\<forall>st'. parseLine linesCount st n index = Inr st' \<longrightarrow>
          (\<exists>key value. splitEntry (currentLine st) = Some (key, value)
             \<and> config st' = fst (addConfig (config st) (cur_section st) key value)
             \<and> cur_section st' = name \<and> currentLine st' = [])"
    by (auto simp add: eq write_line_split split: option.splits if_splits)
  from eq fl none some show ?thesis by (intro conjI)
qed

lemma flush_at_section_header_example:
  "headerName ''[b]'' = Some ''b''
   \<and> parseLine 3 \<lparr>config = newConfig, cur_section = ''a'', currentLine = ''k = 1'',
                   seenSections = {''a''}\<rparr> ''[b]'' 2
       = Inr \<lparr>config = fst (addConfig newConfig ''a'' ''k'' ''1''), cur_section = ''b'',
              currentLine = [], seenSections = {''b'', ''a''}\<rparr>
   \<and> parseLine 3 \<lparr>config = newConfig, cur_section = ''a'', currentLine = ''k'',
                   seenSections = {''a''}\<rparr> ''[b]'' 2
       = Inl (Error ''parse the content error : line 2'')
   \<and> parseThenGet (''[a]'' @ [CHR 0x0A] @ ''k = 1 '' @ [CHR 0x5C, CHR 0x0A] @ ''[b]'') ''a::k'' = Inr ''1''
   \<and> parseThenGet (''[a]'' @ [CHR 0x0A] @ ''k = 1 '' @ [CHR 0x5C, CHR 0x0A] @ ''[b]'') ''b::k'' = Inr []"
proof -
  let ?st = "\<lparr>config = newConfig, cur_section = ''a'', currentLine = ''k = 1'',
              seenSections = {''a''}\<rparr>"
  let ?st2 = "\<lparr>config = newConfig, cur_section = ''a'', currentLine = ''k'',
              seenSections = {''a''}\<rparr>"
  have h: "headerName ''[b]'' = Some ''b''" by code_simp
  have p: "currentLine ?st \<noteq> []" by simp
  have p2: "currentLine ?st2 \<noteq> []" by simp
  have sp: "splitEntry ''k = 1'' = Some (''k'', ''1'')" by code_simp
  have sp2: "splitEntry ''k'' = None" by code_simp
  have n2: "showNat 2 = ''2''" by code_simp
  have w: "write_line newConfig ''a'' 2 ''k = 1'' = Inr (fst (addConfig newConfig ''a'' ''k'' ''1''))"
    by (simp add: write_line_split sp)
  have w1: "parseLine 3 ?st ''[b]'' 2
       = Inr \<lparr>config = fst (addConfig newConfig ''a'' ''k'' ''1''), cur_section = ''b'',
              currentLine = [], seenSections = {''b'', ''a''}\<rparr>"
    using flush_at_section_header [OF h p, where linesCount = 3 and index = 2, THEN conjunct1] w
    by simp
  have w2: "parseLine 3 ?st2 ''[b]'' 2 = Inl (Error ''parse the content error : line 2'')"
    using flush_at_section_header [OF h p2, where linesCount = 3 and index = 2,
        THEN conjunct2, THEN conjunct2, THEN conjunct1] sp2 n2
    by simp
  have w3: "parseThenGet (''[a]'' @ [CHR 0x0A] @ ''k = 1 '' @ [CHR 0x5C, CHR 0x0A] @ ''[b]'') ''a::k'' = Inr ''1''"
    by code_simp
  have w4: "parseThenGet (''[a]'' @ [CHR 0x0A] @ ''k = 1 '' @ [CHR 0x5C, CHR 0x0A] @ ''[b]'') ''b::k'' = Inr []"
    by code_simp
  from h w1 w2 w3 w4 show ?thesis by (intro conjI)
qed

text \<open>
  C8 at a text with an empty line. The header \<open>[b]\<close> is line 4 of the text and the
  pending line \<open>k\<close>, on line 3, has no \<open>=\<close>: the flush at the header is attributed to
  line 2, not to line 3, the empty line not being counted.
\<close>

theorem header_flush_line_number:
  "split_str (''[a]'' @ [CHR 0x0A, CHR 0x0A] @ ''k '' @ [CHR 0x5C, CHR 0x0A] @ ''[b]'') [CHR 0x0A]
     = [''[a]'', [], ''k '' @ [CHR 0x5C], ''[b]'']
   \<and> newConfigFromText (''[a]'' @ [CHR 0x0A, CHR 0x0A] @ ''k '' @ [CHR 0x5C, CHR 0x0A] @ ''[b]'')
       = Inl (Error ''parse the content error : line 2'')"
proof -
  let ?t = "''[a]'' @ [CHR 0x0A, CHR 0x0A] @ ''k '' @ [CHR 0x5C, CHR 0x0A] @ ''[b]''"
  have "split_str ?t [CHR 0x0A] = [''[a]'', [], ''k '' @ [CHR 0x5C], ''[b]'']"
    by code_simp
  moreover have "parseThenGet ?t [] = Inl (Error ''parse the content error : line 2'')"
    by code_simp
  then have "newConfigFromText ?t = Inl (Error ''parse the content error : line 2'')"
    by (simp only: parseThenGet_Inl)
  ultimately show ?thesis by (intro conjI)
qed

subsection \<open>Runs of forEach\<close>

lemma forEachLine_append:
  "forEachLine cnt st i (xs @ ys) =
     (case forEachLine cnt st i xs of
        Inl e \<Rightarrow> Inl e
      | Inr st' \<Rightarrow> forEachLine cnt st' (i + length xs) ys)"
  by (induction xs arbitrary: st i) (simp_all split: sum.splits)

lemma parseLine_seen:
  assumes "parseLine cnt st n i = Inr st'"
  shows "seenSections st' =
     seenSections st \<union> (case headerName n of None \<Rightarrow> {} | Some name \<Rightarrow> {name})"
proof (cases "headerName n")
  case (Some name)
  with assms show ?thesis
    by (auto simp add: parseLine_header split: sum.splits if_splits)
next
  case None
  with assms show ?thesis
    by (auto simp add: parseLine_def headerName_def Let_def split: sum.splits if_splits prod.splits)
qed

lemma forEachLine_seen:
  "forEachLine cnt st i xs = Inr st' \<Longrightarrow>
   seenSections st' = seenSections st \<union> {name. \<exists>h \<in> set xs. headerName h = Some name}"
proof (induction xs arbitrary: st i)
  case Nil
  then show ?case by simp
next
  case (Cons n ns)
  from Cons.prems obtain st1 where
    one: "parseLine cnt st n i = Inr st1" and rest: "forEachLine cnt st1 (Suc i) ns = Inr st'"
    by (auto split: sum.splits)
  from Cons.IH [OF rest] parseLine_seen [OF one] show ?case
    by (auto split: option.splits)
qed

lemma trim_stripComments_Nil: "trim (stripComments []) = []"
  by (simp add: stripComments_def DEFAULT_COMMENT_def DEFAULT_COMMENT_SEM_def trim_def)

lemma header_not_empty: "headerName h = Some name \<Longrightarrow> h \<noteq> []"
  using trim_stripComments_Nil by (auto simp add: headerName_Some)

lemma write_line_any_number:
  "write_line c s m line = Inr c' \<Longrightarrow> write_line c s m' line = Inr c'"
  by (auto simp add: write_line_split split: option.splits if_splits)

text \<open>
  C4, as the code has it by design. Let a line of the text be a header naming a section
  that a header above it names too, let the lines above it be parsed without a failure,
  and let the continuation that is pending there, if any, be written without a failure.
  Then parsing fails with \<open>Duplicated section\<close>, naming that section and a line; and
  when no line above the header is empty, the line named is the header's line in the
  text, \<open>length pre + 1\<close>.
\<close>

theorem duplicate_section:
  assumes "split_str text [CHR 0x0A] = pre @ hdr # post"
    and "headerName hdr = Some name"
    and "\<exists>h \<in> set pre. headerName h = Some name"
    and "forEachLine (length (linesOf text)) (initialState newConfig) 0
           (filter (\<lambda>v. v \<noteq> []) pre) = Inr st"
    and "currentLine st = []
         \<or> (\<exists>m c. write_line (config st) (cur_section st) m (currentLine st) = Inr c)"
  shows "(\<exists>n. newConfigFromText text
            = Inl (Error (''Duplicated section: '' @ name @ '' at line '' @ n)))
     \<and> ([] \<notin> set pre \<longrightarrow>
          newConfigFromText text
            = Inl (Error (''Duplicated section: '' @ name @ '' at line '' @ showNat (length pre + 1))))"
proof -
  let ?cnt = "length (linesOf text)"
  let ?pre = "filter (\<lambda>v. v \<noteq> []) pre"
  let ?post = "filter (\<lambda>v. v \<noteq> []) post"
  have lines: "linesOf text = ?pre @ hdr # ?post"
    using assms(1) header_not_empty [OF assms(2)] by (simp add: linesOf_def)
  from assms(3) obtain h where "h \<in> set pre" and "headerName h = Some name" by blast
  then have "\<exists>h \<in> set ?pre. headerName h = Some name"
    using header_not_empty [of h name] by auto
  then have seen: "name \<in> seenSections st"
    using forEachLine_seen [OF assms(4)] by auto
  have pending: "currentLine st = []
      \<or> (\<exists>c. write_line (config st) (cur_section st) (length ?pre) (currentLine st) = Inr c)"
    using assms(5) write_line_any_number by blast
  have step: "parseLine ?cnt st hdr (length ?pre)
      = Inl (Error (''Duplicated section: '' @ name @ '' at line '' @ showNat (length ?pre + 1)))"
    using pending seen by (auto simp add: parseLine_header [OF assms(2)])
  have "forEachLine ?cnt (initialState newConfig) 0 (?pre @ hdr # ?post)
      = Inl (Error (''Duplicated section: '' @ name @ '' at line '' @ showNat (length ?pre + 1)))"
    by (simp add: forEachLine_append assms(4) step)
  then have res: "newConfigFromText text
      = Inl (Error (''Duplicated section: '' @ name @ '' at line '' @ showNat (length ?pre + 1)))"
    by (simp add: newConfigFromText_def parseBuffer_def Let_def lines [symmetric])
  have "[] \<notin> set pre \<longrightarrow> ?pre = pre"
    by (induction pre) auto
  with res show ?thesis by auto
qed

theorem duplicate_section_witness:
  "newConfigFromText (''[p]'' @ [CHR 0x0A] @ ''x = 1'' @ [CHR 0x0A] @ ''[p]'' @ [CHR 0x0A] @ ''y = 2'')
     = Inl (Error ''Duplicated section: p at line 3'')
   \<and> newConfigFromText (''[p]'' @ [CHR 0x0A] @ ''x = 1 '' @ [CHR 0x5C, CHR 0x0A] @ ''[p]'')
     = Inl (Error ''Duplicated section: p at line 3'')
   \<and> (\<exists>n. newConfigFromText (''[p]'' @ [CHR 0x0A, CHR 0x0A] @ ''[p]'')
     = Inl (Error (''Duplicated section: p at line '' @ n)))"
proof -
  let ?t = "''[p]'' @ [CHR 0x0A] @ ''x = 1'' @ [CHR 0x0A] @ ''[p]'' @ [CHR 0x0A] @ ''y = 2''"
  let ?u = "''[p]'' @ [CHR 0x0A] @ ''x = 1 '' @ [CHR 0x5C, CHR 0x0A] @ ''[p]''"
  let ?w = "''[p]'' @ [CHR 0x0A, CHR 0x0A] @ ''[p]''"
  let ?pre = "[''[p]'', ''x = 1'']"
  let ?pre2 = "[''[p]'', ''x = 1 '' @ [CHR 0x5C]]"
  let ?pre3 = "[''[p]'', []]"
  have h: "headerName ''[p]'' = Some ''p''" by code_simp
  have n3: "showNat (Suc (Suc (Suc 0))) = ''3''" by code_simp
  have s: "split_str ?t [CHR 0x0A] = ?pre @ ''[p]'' # [''y = 2'']" by code_simp
  have ne: "[] \<notin> set ?pre" by simp
  have ea: "\<exists>h \<in> set ?pre. headerName h = Some ''p''" using h by simp
  have len: "length (linesOf ?t) = 4" by code_simp
  have "case forEachLine 4 (initialState newConfig) 0 ?pre of
          Inl e \<Rightarrow> False | Inr st \<Rightarrow> currentLine st = []"
    by code_simp
  then obtain st where run4: "forEachLine 4 (initialState newConfig) 0 ?pre = Inr st"
    and cur0: "currentLine st = []"
    by (auto simp del: forEachLine.simps split: sum.splits)
  have f: "filter (\<lambda>v. v \<noteq> []) ?pre = ?pre" by simp
  have run: "forEachLine (length (linesOf ?t)) (initialState newConfig) 0
      (filter (\<lambda>v. v \<noteq> []) ?pre) = Inr st"
    unfolding f len by (rule run4)
  from cur0 have cur: "currentLine st = []
         \<or> (\<exists>m c. write_line (config st) (cur_section st) m (currentLine st) = Inr c)"
    by simp
  have w1: "newConfigFromText ?t = Inl (Error ''Duplicated section: p at line 3'')"
    using duplicate_section [OF s h ea run cur, THEN conjunct2] ne n3 by simp
  have s2: "split_str ?u [CHR 0x0A] = ?pre2 @ ''[p]'' # []" by code_simp
  have ne2: "[] \<notin> set ?pre2" by simp
  have ea2: "\<exists>h \<in> set ?pre2. headerName h = Some ''p''" using h by simp
  have len2: "length (linesOf ?u) = 3" by code_simp
  have "case forEachLine 3 (initialState newConfig) 0 ?pre2 of
          Inl e \<Rightarrow> False
        | Inr st \<Rightarrow> (case write_line (config st) (cur_section st) 2 (currentLine st) of
                       Inl e \<Rightarrow> False | Inr c \<Rightarrow> currentLine st = ''x = 1'')"
    by code_simp
  then obtain st2 c2 where run3: "forEachLine 3 (initialState newConfig) 0 ?pre2 = Inr st2"
    and wr: "write_line (config st2) (cur_section st2) 2 (currentLine st2) = Inr c2"
    by (auto simp del: forEachLine.simps split: sum.splits)
  have f2: "filter (\<lambda>v. v \<noteq> []) ?pre2 = ?pre2" by simp
  have run2: "forEachLine (length (linesOf ?u)) (initialState newConfig) 0
      (filter (\<lambda>v. v \<noteq> []) ?pre2) = Inr st2"
    unfolding f2 len2 by (rule run3)
  from wr have cur2: "currentLine st2 = []
         \<or> (\<exists>m c. write_line (config st2) (cur_section st2) m (currentLine st2) = Inr c)"
    by blast
  have w2: "newConfigFromText ?u = Inl (Error ''Duplicated section: p at line 3'')"
    using duplicate_section [OF s2 h ea2 run2 cur2, THEN conjunct2] ne2 n3 by simp
  have s3: "split_str ?w [CHR 0x0A] = ?pre3 @ ''[p]'' # []" by code_simp
  have ea3: "\<exists>h \<in> set ?pre3. headerName h = Some ''p''" using h by simp
  have len3: "length (linesOf ?w) = 2" by code_simp
  have "case forEachLine 2 (initialState newConfig) 0 [''[p]''] of
          Inl e \<Rightarrow> False | Inr st \<Rightarrow> currentLine st = []"
    by code_simp
  then obtain st3 where run5: "forEachLine 2 (initialState newConfig) 0 [''[p]''] = Inr st3"
    and cur5: "currentLine st3 = []"
    by (auto simp del: forEachLine.simps split: sum.splits)
  have f3: "filter (\<lambda>v. v \<noteq> []) ?pre3 = [''[p]'']" by simp
  have run3': "forEachLine (length (linesOf ?w)) (initialState newConfig) 0
      (filter (\<lambda>v. v \<noteq> []) ?pre3) = Inr st3"
    unfolding f3 len3 by (rule run5)
  from cur5 have cur3: "currentLine st3 = []
         \<or> (\<exists>m c. write_line (config st3) (cur_section st3) m (currentLine st3) = Inr c)"
    by simp
  have w3: "\<exists>n. newConfigFromText ?w = Inl (Error (''Duplicated section: p at line '' @ n))"
    using duplicate_section [OF s3 h ea3 run3' cur3, THEN conjunct1] by simp
  from w1 w2 w3 show ?thesis by (intro conjI)
qed

text \<open>
  C4 as stated does not hold: a failure before the second header wins. Here the line
  \<open>foo\<close> between two headers \<open>[p]\<close> has no \<open>=\<close>.
\<close>

theorem duplicate_section_counterexample:
  "split_str (''[p]'' @ [CHR 0x0A] @ ''foo'' @ [CHR 0x0A] @ ''[p]'') [CHR 0x0A] = [''[p]'', ''foo'', ''[p]'']
   \<and> headerName ''[p]'' = Some ''p''
   \<and> newConfigFromText (''[p]'' @ [CHR 0x0A] @ ''foo'' @ [CHR 0x0A] @ ''[p]'')
       = Inl (Error ''parse the content error : line 2'')
   \<and> newConfigFromText (''[p]'' @ [CHR 0x0A] @ ''foo'' @ [CHR 0x0A] @ ''[p]'')
       \<noteq> Inl (Error ''Duplicated section: p at line 3'')"
proof -
  have a: "split_str (''[p]'' @ [CHR 0x0A] @ ''foo'' @ [CHR 0x0A] @ ''[p]'') [CHR 0x0A] = [''[p]'', ''foo'', ''[p]'']"
    by code_simp
  have b: "headerName ''[p]'' = Some ''p''" by code_simp
  have "parseThenGet (''[p]'' @ [CHR 0x0A] @ ''foo'' @ [CHR 0x0A] @ ''[p]'') []
      = Inl (Error ''parse the content error : line 2'')"
    by code_simp
  then have c: "newConfigFromText (''[p]'' @ [CHR 0x0A] @ ''foo'' @ [CHR 0x0A] @ ''[p]'')
      = Inl (Error ''parse the content error : line 2'')"
    by (simp only: parseThenGet_Inl)
  then have d: "newConfigFromText (''[p]'' @ [CHR 0x0A] @ ''foo'' @ [CHR 0x0A] @ ''[p]'')
       \<noteq> Inl (Error ''Duplicated section: p at line 3'')"
    by simp
  from a b c d show ?thesis by (intro conjI)
qed

subsection \<open>What the store holds after parsing\<close>

lemma stored_addConfig:
  "stored (fst (addConfig c s k v)) s' k' =
     (if s' = (if s = [] then DEFAULT_SECTION else s) \<and> k' = k then Some v else stored c s' k')"
  by (auto simp add: addConfig_def stored_def Let_def split: option.splits)

lemma stored_entries:
  assumes "\<forall>(s, k, v) \<in> set ws. s \<noteq> []"
  shows "stored (foldl (\<lambda>c (s, k, v). fst (addConfig c s k v)) c ws) s k =
     (case lastWritten ws s k of Some v \<Rightarrow> Some v | None \<Rightarrow> stored c s k)"
  using assms
proof (induction ws arbitrary: c)
  case Nil
  then show ?case by simp
next
  case (Cons w ws)
  obtain s' k' v' where w: "w = (s', k', v')" by (cases w)
  from Cons.prems w have ne: "s' \<noteq> []" and rest: "\<forall>(s, k, v) \<in> set ws. s \<noteq> []"
    by auto
  show ?case
    using Cons.IH [OF rest, of "fst (addConfig c s' k' v')"] ne
    by (auto simp add: w stored_addConfig split: option.splits)
qed

lemma entryOf_sections: "(s, k, v) \<in> set (entryOf f) \<Longrightarrow> s \<noteq> []"
  by (auto simp add: entryOf_def DEFAULT_SECTION_def split: option.splits prod.splits if_splits)

lemma addConfig_Nil: "addConfig c [] k v = addConfig c DEFAULT_SECTION k v"
  by (simp add: addConfig_def DEFAULT_SECTION_def)

lemma write_line_entry:
  assumes "write_line c s m line = Inr c'"
  shows "c' = foldl (\<lambda>c (s, k, v). fst (addConfig c s k v)) c (entryOf (Some (s, line)))"
  using assms
  by (auto simp add: write_line_split entryOf_def addConfig_Nil split: option.splits if_splits)

lemma parseLine_config:
  assumes "parseLine cnt st n i = Inr st'"
  shows "config st' = foldl (\<lambda>c (s, k, v). fst (addConfig c s k v)) (config st) (entryOf (flushOf cnt st n i))"
proof (cases "headerName n")
  case (Some name)
  show ?thesis
  proof (cases "currentLine st = []")
    case True
    with assms Some show ?thesis
      by (auto simp add: parseLine_header flushOf_def headerName_Some entryOf_def Let_def
          split: if_splits)
  next
    case False
    with assms Some obtain c where w: "write_line (config st) (cur_section st) i (currentLine st) = Inr c"
      and c: "config st' = c"
      by (auto simp add: parseLine_header split: sum.splits if_splits)
    from False Some have "flushOf cnt st n i = Some (cur_section st, currentLine st)"
      by (simp add: headerName_Some flushOf_def Let_def)
    with write_line_entry [OF w] c show ?thesis by simp
  qed
next
  case None
  let ?line = "trim (stripComments n)"
  from None have nh: "\<not> (startsWith ?line ''['' \<and> endsWith ?line '']'')"
    by (simp add: headerName_def Let_def split: if_splits)
  show ?thesis
  proof (cases "flushOf cnt st n i")
    case None
    with assms nh show ?thesis
      by (auto simp add: parseLine_def flushOf_def entryOf_def Let_def split: if_splits)
  next
    case (Some f)
    with nh have f: "f = (cur_section st, snd f)" and
      "\<exists>m. parseLine cnt st n i =
         (case write_line (config st) (cur_section st) m (snd f) of
            Inl e \<Rightarrow> Inl e | Inr c \<Rightarrow> Inr (st\<lparr>config := c, currentLine := []\<rparr>))"
      by (auto simp add: parseLine_def flushOf_def Let_def split: if_splits)
    then obtain m where eq: "parseLine cnt st n i =
         (case write_line (config st) (cur_section st) m (snd f) of
            Inl e \<Rightarrow> Inl e | Inr c \<Rightarrow> Inr (st\<lparr>config := c, currentLine := []\<rparr>))"
      by blast
    show ?thesis
    proof (cases "write_line (config st) (cur_section st) m (snd f)")
      case (Inl e)
      with eq assms show ?thesis by simp
    next
      case (Inr c)
      with eq assms have c: "config st' = c" by auto
      from write_line_entry [OF Inr] c Some f show ?thesis by metis
    qed
  qed
qed

lemma forEachLine_config:
  "forEachLine cnt st i xs = Inr st' \<Longrightarrow>
   config st' = foldl (\<lambda>c (s, k, v). fst (addConfig c s k v)) (config st) (writtenFrom cnt st i xs)"
proof (induction xs arbitrary: st i)
  case Nil
  then show ?case by simp
next
  case (Cons n ns)
  from Cons.prems obtain st1 where
    one: "parseLine cnt st n i = Inr st1" and rest: "forEachLine cnt st1 (Suc i) ns = Inr st'"
    by (auto split: sum.splits)
  from Cons.IH [OF rest] parseLine_config [OF one] one show ?case
    by simp
qed

lemma writtenFrom_sections: "(s, k, v) \<in> set (writtenFrom cnt st i xs) \<Longrightarrow> s \<noteq> []"
proof (induction xs arbitrary: st i)
  case Nil
  then show ?case by simp
next
  case (Cons n ns)
  then show ?case
    by (auto split: sum.splits dest: entryOf_sections)
qed

lemma stored_after_parse:
  assumes "newConfigFromText text = Inr c"
  shows "stored c s k = lastWritten (written text) s k"
proof -
  from assms obtain st where
    run: "forEachLine (length (linesOf text)) (initialState newConfig) 0 (linesOf text) = Inr st"
    and c: "c = config st"
    by (auto simp add: newConfigFromText_def parseBuffer_def Let_def split: sum.splits)
  have ne: "\<forall>(s, k, v) \<in> set (written text). s \<noteq> []"
    by (auto simp add: written_def dest: writtenFrom_sections)
  have "stored newConfig s k = None"
    by (simp add: stored_def newConfig_def)
  with stored_entries [OF ne, of newConfig s k] forEachLine_config [OF run] c
  show ?thesis
    by (simp add: written_def initialState_def split: option.splits)
qed


lemma get_after_parse:
  assumes "newConfigFromText text = Inr c"
  shows "get c key =
     (case lastWritten (written text) (fst (addressed key)) (snd (addressed key)) of
        None \<Rightarrow> [] | Some v \<Rightarrow> v)"
  by (simp only: get_stored stored_after_parse [OF assms])

lemma parseThenGet_Inr:
  "parseThenGet text key = Inr v \<longleftrightarrow> (\<exists>c. newConfigFromText text = Inr c \<and> get c key = v)"
  by (auto simp add: parseThenGet_def split: sum.splits)

lemma split_str_pieces: "p \<in> set (split_str s sep) \<Longrightarrow> set p \<subseteq> set s"
proof (induction s sep arbitrary: p rule: split_str.induct)
  case (1 s sep)
  show ?case
  proof (cases "sep = []")
    case True
    have "split_str s [] = map (\<lambda>c. [c]) s"
      by (subst split_str.simps) simp
    with True "1.prems" show ?thesis by auto
  next
    case False
    show ?thesis
    proof (cases "indexOf s sep")
      case None
      with False "1.prems" show ?thesis by (simp add: split_str_not_found)
    next
      case (Some i)
      with False "1.prems" have "p = take i s \<or> p \<in> set (split_str (drop (i + length sep) s) sep)"
        by (simp add: split_str_found)
      then show ?thesis
      proof
        assume "p = take i s"
        then show ?thesis by (auto dest: in_set_takeD)
      next
        assume "p \<in> set (split_str (drop (i + length sep) s) sep)"
        with "1.IH" [OF False Some] have "set p \<subseteq> set (drop (i + length sep) s)" by blast
        then show ?thesis by (auto dest: in_set_dropD)
      qed
    qed
  qed
qed

lemma lowerChar_not_capital_S: "lowerChar x \<noteq> CHR ''S''"
proof
  assume "lowerChar x = CHR ''S''"
  then have "(of_char (lowerChar x) :: nat) = of_char CHR ''S''" by simp
  then show False by (auto simp add: of_char_lowerChar split: if_splits)
qed

lemma addressed_option_lower: "CHR ''S'' \<notin> set (snd (addressed key))"
proof -
  let ?keys = "split_str (toLowerCase key) ''::''"
  have ne: "?keys \<noteq> []" by (simp add: split_str_not_Nil)
  have "snd (addressed key) \<in> set ?keys"
    using ne by (auto simp add: addressed_def Let_def)
  then have "set (snd (addressed key)) \<subseteq> set (toLowerCase key)"
    by (rule split_str_pieces)
  moreover have "CHR ''S'' \<notin> set (toLowerCase key)"
    using lowerChar_not_capital_S by (fastforce simp add: toLowerCase_def)
  ultimately show ?thesis by blast
qed

text \<open>
  C1 at a text whose key has a capital letter. The parser inserts the key \<open>Sub\<close> as
  written; \<open>get\<close> puts every qualified key in lower case, so after parsing no key at
  all reads the value, while \<open>set\<close>, which puts its key in lower case as \<open>get\<close> does,
  stores a value that the same key reads.
\<close>

theorem parsed_key_unreadable:
  "written (''[r]'' @ [CHR 0x0A] @ ''Sub = alice'') = [(''r'', ''Sub'', ''alice'')]
   \<and> parseThenGet (''[r]'' @ [CHR 0x0A] @ ''Sub = alice'') ''r::Sub'' = Inr []
   \<and> (\<forall>key. parseThenGet (''[r]'' @ [CHR 0x0A] @ ''Sub = alice'') key = Inr [])
   \<and> setThenGet newConfig ''r::Sub'' ''alice'' ''r::Sub'' = Inr ''alice''"
proof -
  let ?t = "''[r]'' @ [CHR 0x0A] @ ''Sub = alice''"
  have w: "written ?t = [(''r'', ''Sub'', ''alice'')]" by code_simp
  have g: "parseThenGet ?t ''r::Sub'' = Inr []" by code_simp
  then obtain c where ok: "newConfigFromText ?t = Inr c"
    by (auto simp only: parseThenGet_Inr)
  have "get c key = []" for key
  proof -
    have "get c key =
        (case lastWritten [(''r'', ''Sub'', ''alice'')] (fst (addressed key)) (snd (addressed key)) of
           None \<Rightarrow> [] | Some v \<Rightarrow> v)"
      by (simp only: get_after_parse [OF ok] w)
    moreover have "snd (addressed key) \<noteq> ''Sub''"
      using addressed_option_lower [of key] by auto
    ultimately show ?thesis by simp
  qed
  with ok have all: "\<forall>key. parseThenGet ?t key = Inr []"
    by (simp add: parseThenGet_def)
  have s: "setThenGet newConfig ''r::Sub'' ''alice'' ''r::Sub'' = Inr ''alice''" by code_simp
  from w g all s show ?thesis by (intro conjI)
qed

end
